theory Spec2Isabelle
  imports Complex_Main "HOL-Library.Word"
begin

unbundle bit_operations_syntax

section \<open>The Shelly Dimmer protocol engine (shelly\_dimmer.cpp)\<close>

text \<open>
  A shallow embedding of \<^verbatim>\<open>esphome/components/shelly_dimmer/shelly_dimmer.cpp\<close>.
  Every function of the component becomes a HOL function that takes the component's
  state and returns the new one. Isabelle does not accept names that end in an
  underscore, so the trailing underscore of the source's private members and methods
  (\<^verbatim>\<open>seq_\<close>, \<^verbatim>\<open>handle_byte_\<close>, ...) is dropped; \<^verbatim>\<open>setup\<close> is a
  reserved word and becomes \<open>shelly_setup\<close>.
\<close>

type_synonym u8 = "8 word"
type_synonym u16 = "16 word"
type_synonym u32 = "32 word"

subsection \<open>Constants of the anonymous namespace\<close>

definition SHELLY_DIMMER_ACK_TIMEOUT :: u8 where
  [simp]: "SHELLY_DIMMER_ACK_TIMEOUT = 200"

definition SHELLY_DIMMER_MAX_RETRIES :: u8 where
  [simp]: "SHELLY_DIMMER_MAX_RETRIES = 3"

definition SHELLY_DIMMER_MAX_BRIGHTNESS :: u16 where
  [simp]: "SHELLY_DIMMER_MAX_BRIGHTNESS = 1000"

definition SHELLY_DIMMER_PROTO_START_BYTE :: u8 where
  [simp]: "SHELLY_DIMMER_PROTO_START_BYTE = 0x01"

definition SHELLY_DIMMER_PROTO_END_BYTE :: u8 where
  [simp]: "SHELLY_DIMMER_PROTO_END_BYTE = 0x04"

definition SHELLY_DIMMER_PROTO_CMD_SWITCH :: u8 where
  [simp]: "SHELLY_DIMMER_PROTO_CMD_SWITCH = 0x01"

definition SHELLY_DIMMER_PROTO_CMD_POLL :: u8 where
  [simp]: "SHELLY_DIMMER_PROTO_CMD_POLL = 0x10"

definition SHELLY_DIMMER_PROTO_CMD_VERSION :: u8 where
  [simp]: "SHELLY_DIMMER_PROTO_CMD_VERSION = 0x11"

definition SHELLY_DIMMER_PROTO_CMD_SETTINGS :: u8 where
  [simp]: "SHELLY_DIMMER_PROTO_CMD_SETTINGS = 0x20"

definition SHELLY_DIMMER_PROTO_CMD_SWITCH_SIZE :: u8 where
  [simp]: "SHELLY_DIMMER_PROTO_CMD_SWITCH_SIZE = 2"

definition SHELLY_DIMMER_PROTO_CMD_SETTINGS_SIZE :: u8 where
  [simp]: "SHELLY_DIMMER_PROTO_CMD_SETTINGS_SIZE = 10"

definition SHELLY_DIMMER_PROTO_MAX_FRAME_SIZE :: nat where
  [simp]: "SHELLY_DIMMER_PROTO_MAX_FRAME_SIZE = 4 + 72 + 3"

text \<open>
  The scaling constants are \<^verbatim>\<open>float\<close> values; all three are integers below \<open>2 ^ 24\<close>
  and so are represented exactly.
\<close>

definition POWER_SCALING_FACTOR :: real where
  [simp]: "POWER_SCALING_FACTOR = 880373"

definition VOLTAGE_SCALING_FACTOR :: real where
  [simp]: "VOLTAGE_SCALING_FACTOR = 347800"

definition CURRENT_SCALING_FACTOR :: real where
  [simp]: "CURRENT_SCALING_FACTOR = 1448"

subsection \<open>State\<close>

text \<open>
  What the component reaches outside itself: the millisecond clock behind
  \<^verbatim>\<open>millis()\<close> and \<^verbatim>\<open>delay()\<close>, and the UART it inherits from
  \<^verbatim>\<open>uart::UARTDevice\<close>. \<open>rx_fifo\<close> holds the bytes that \<^verbatim>\<open>available()\<close> reports and
  \<^verbatim>\<open>read()\<close> returns; \<open>rx_future\<close> holds, for each coming millisecond, the bytes
  that arrive during it; \<open>tx_log\<close> gets one entry for every \<^verbatim>\<open>write_array\<close> call.
  Time passes only in \<^verbatim>\<open>delay\<close>.
\<close>

record env =
  clock :: u32
  rx_fifo :: "u8 list"
  rx_future :: "u8 list list"
  tx_log :: "u8 list list"
  parity_even :: bool

text \<open>
  The members of \<^verbatim>\<open>class ShellyDimmer\<close> that the source file uses. The class
  declaration (shelly\_dimmer.h) is not among the sources; the types are the ones the
  code forces: \<^verbatim>\<open>seq_\<close> and the cursor are read into \<^verbatim>\<open>uint8_t\<close> locals, the
  brightness values into \<^verbatim>\<open>uint16_t\<close>. A pointer member that may be null is an
  \<open>option\<close>: \<open>state\<close> is the brightness that
  \<^verbatim>\<open>state_->current_values_as_brightness\<close> yields, a sensor is the list of the values
  published to it so far. \<open>failed\<close> is set by \<^verbatim>\<open>mark_failed()\<close>, \<open>poll_interval\<close> by
  \<^verbatim>\<open>set_interval("poll", ...)\<close>; \<open>pin_boot0\<close> and \<open>pin_nrst\<close> are the levels last
  written to the two GPIO pins, and \<open>stm32_log\<close> lists the calls made into the
  external flashing library (stm32flash.h), latest last.
\<close>

datatype stm32_call =
    Stm32_init
  | Stm32_erase_memory
  | Stm32_write_memory u32 "u8 list"
  | Stm32_close

record shelly =
  seq :: u8
  buffer :: "u8 list"
  buffer_pos :: u8
  version_major :: u8
  version_minor :: u8
  leading_edge :: bool
  min_brightness :: u16
  max_brightness :: u16
  warmup_brightness :: u16
  warmup_time :: u16
  fade_rate :: u16
  state :: "real option"
  power_sensor :: "real list option"
  voltage_sensor :: "real list option"
  current_sensor :: "real list option"
  ready :: bool
  brightness :: u16
  failed :: bool
  poll_interval :: "nat option"
  pin_boot0 :: bool
  pin_nrst :: bool
  stm32_log :: "stm32_call list"
  env :: env

subsection \<open>The transport and the clock\<close>

definition available :: "shelly \<Rightarrow> bool" where
  "available s = (rx_fifo (env s) \<noteq> [])"

text \<open>\<^verbatim>\<open>read()\<close> is only called after \<^verbatim>\<open>available()\<close> returned true.\<close>

definition read :: "shelly \<Rightarrow> u8 \<times> shelly" where
  "read s = (hd (rx_fifo (env s)), s\<lparr>env := (env s)\<lparr>rx_fifo := tl (rx_fifo (env s))\<rparr>\<rparr>)"

definition write_array :: "u8 list \<Rightarrow> shelly \<Rightarrow> shelly" where
  "write_array bytes s = s\<lparr>env := (env s)\<lparr>tx_log := tx_log (env s) @ [bytes]\<rparr>\<rparr>"

text \<open>Every written frame is logged at once, so \<^verbatim>\<open>flush()\<close> has nothing left to do.\<close>

definition flush :: "shelly \<Rightarrow> shelly" where
  "flush s = s"

definition millis :: "shelly \<Rightarrow> u32" where
  "millis s = clock (env s)"

text \<open>One millisecond passes: the clock advances and the bytes of that millisecond arrive.\<close>

definition tick :: "env \<Rightarrow> env" where
  "tick e = e\<lparr>clock := clock e + 1,
              rx_fifo := rx_fifo e @ (case rx_future e of [] \<Rightarrow> [] | b # _ \<Rightarrow> b),
              rx_future := tl (rx_future e)\<rparr>"

fun delay_env :: "nat \<Rightarrow> env \<Rightarrow> env" where
  "delay_env 0 e = e"
| "delay_env (Suc n) e = delay_env n (tick e)"

definition delay :: "nat \<Rightarrow> shelly \<Rightarrow> shelly" where
  "delay ms s = s\<lparr>env := delay_env ms (env s)\<rparr>"

subsection \<open>Frame codec\<close>

text \<open>
  \<^verbatim>\<open>shelly_dimmer_checksum(buf, len)\<close>: the loop adds each byte to a \<^verbatim>\<open>uint16_t\<close>
  sum, which wraps. The model takes the \<open>len\<close> bytes at \<open>buf\<close> as a list.
\<close>

fun checksum_loop :: "u8 list \<Rightarrow> u16 \<Rightarrow> u16" where
  "checksum_loop [] sum16 = sum16"
| "checksum_loop (b # bs) sum16 = checksum_loop bs (sum16 + ucast b)"

definition shelly_dimmer_checksum :: "u8 list \<Rightarrow> u16" where
  "shelly_dimmer_checksum buf = checksum_loop buf 0"

text \<open>
  \<^verbatim>\<open>memcpy(dst + off, src, n)\<close>, for \<open>off + n \<le> length dst\<close> and \<open>n \<le> length src\<close>
  (anything else is undefined behaviour in the source).
\<close>

definition memcpy :: "u8 list \<Rightarrow> nat \<Rightarrow> u8 list \<Rightarrow> nat \<Rightarrow> u8 list" where
  "memcpy dst off src n = take off dst @ take n src @ drop (off + n) dst"

text \<open>
  \<^verbatim>\<open>frame_command_(data, cmd, payload, len)\<close> fills the caller's array \<open>data\<close>,
  increments the sequence counter first, and returns the frame's length. \<open>payload\<close> is
  \<open>None\<close> for \<^verbatim>\<open>nullptr\<close>. \<^verbatim>\<open>data[3] = len\<close> keeps the low eight bits of \<open>len\<close>.
\<close>

definition frame_command :: "u8 list \<Rightarrow> u8 \<Rightarrow> u8 list option \<Rightarrow> nat \<Rightarrow> shelly \<Rightarrow> u8 list \<times> nat \<times> shelly" where
  "frame_command data cmd payload len s =
     (let s1 = s\<lparr>seq := seq s + 1\<rparr>;
          d1 = data[0 := SHELLY_DIMMER_PROTO_START_BYTE, 1 := seq s1, 2 := cmd, 3 := of_nat len];
          (d2, pos) = (case payload of
                         None \<Rightarrow> (d1, 4)
                       | Some p \<Rightarrow> (memcpy d1 4 p len, 4 + len));
          csum = shelly_dimmer_checksum (take (3 + len) (drop 1 d2));
          d3 = d2[pos := ucast (drop_bit 8 csum), pos + 1 := ucast (csum AND 0xff),
                  pos + 2 := SHELLY_DIMMER_PROTO_END_BYTE]
      in (d3, pos + 3, s1))"

subsection \<open>Stream parser\<close>

text \<open>
  \<^verbatim>\<open>handle_byte_(c)\<close> classifies the byte just stored at the cursor: \<open>1\<close> = need more
  data, \<open>0\<close> = frame complete, \<open>-1\<close> = failure. \<^verbatim>\<open>SHELLY_DIMMER_BUFFER_SIZE\<close> is
  declared in the header, which is not among the sources; it is the parameter \<open>cap\<close>.
  The comparisons of the source are made in \<^verbatim>\<open>int\<close>, after integer promotion of
  the \<^verbatim>\<open>uint8_t\<close> cursor and length.
\<close>

definition handle_byte :: "nat \<Rightarrow> shelly \<Rightarrow> u8 \<Rightarrow> int" where
  "handle_byte cap s c =
     (let pos = buffer_pos s in
      if pos = 0 then (if c = SHELLY_DIMMER_PROTO_START_BYTE then 1 else - 1)
      else if pos < 4 then 1
      else
        let payload_len = buffer s ! 3 in
        if 4 + unat payload_len + 3 > cap then - 1
        else if unat pos < 4 + unat payload_len + 1 then 1
        else if unat pos = 4 + unat payload_len + 1 then
          (let csum = (push_bit 8 (ucast (buffer s ! (unat pos - 1))) OR ucast c :: u16);
               csum_verify = shelly_dimmer_checksum (take (3 + unat payload_len) (drop 1 (buffer s)))
           in if csum \<noteq> csum_verify then - 1 else 1)
        else if unat pos = 4 + unat payload_len + 2 then
          (if c = SHELLY_DIMMER_PROTO_END_BYTE then 0 else - 1)
        else - 1)"

text \<open>
  What the body of the loop in \<^verbatim>\<open>read_frame_\<close> does with one byte, the dispatch of a
  completed frame left out: store the byte at the cursor, classify it, and move the
  cursor. It returns the classification with the new state.
\<close>

definition parse_byte :: "nat \<Rightarrow> u8 \<Rightarrow> shelly \<Rightarrow> int \<times> shelly" where
  "parse_byte cap c s =
     (let s1 = s\<lparr>buffer := (buffer s)[unat (buffer_pos s) := c]\<rparr>;
          r = handle_byte cap s1 c
      in if r = 0 then (r, s1\<lparr>buffer_pos := 0\<rparr>)
         else if r = - 1 then (r, s1\<lparr>buffer_pos := 0\<rparr>)
         else if r = 1 then (r, s1\<lparr>buffer_pos := buffer_pos s1 + 1\<rparr>)
         else (r, s1))"

text \<open>Feeding a list of bytes to the parser one at a time, keeping every classification.\<close>

fun feed :: "nat \<Rightarrow> u8 list \<Rightarrow> shelly \<Rightarrow> int list \<times> shelly" where
  "feed cap [] s = ([], s)"
| "feed cap (c # cs) s =
     (let (r, s1) = parse_byte cap c s;
          (rs, s2) = feed cap cs s1
      in (r # rs, s2))"


subsection \<open>Floating point\<close>

text \<open>
  A \<^verbatim>\<open>float\<close> is modelled by the real number it denotes. Every arithmetic
  operation of the source rounds its exact result to a representable value; that
  rounding is the parameter \<open>rnd\<close> of the functions below. Infinities and NaN are not
  modelled: the only division of the source is guarded by \<^verbatim>\<open>raw > 0\<close>.
\<close>

definition float_of_u32 :: "(real \<Rightarrow> real) \<Rightarrow> u32 \<Rightarrow> real" where
  "float_of_u32 rnd w = rnd (real (unat w))"

definition float_div :: "(real \<Rightarrow> real) \<Rightarrow> real \<Rightarrow> real \<Rightarrow> real" where
  "float_div rnd a b = rnd (a / b)"

definition float_mul :: "(real \<Rightarrow> real) \<Rightarrow> real \<Rightarrow> real \<Rightarrow> real" where
  "float_mul rnd a b = rnd (a * b)"

text \<open>
  \<^verbatim>\<open>static_cast<uint16_t>(x)\<close> truncates towards zero; the behaviour is undefined
  when the truncated value does not fit the type, which is the result \<open>None\<close>.
\<close>

definition float_to_uint16 :: "real \<Rightarrow> u16 option" where
  "float_to_uint16 x =
     (if - 1 < x \<and> x < 65536 then Some (of_int (if 0 \<le> x then \<lfloor>x\<rfloor> else \<lceil>x\<rceil>)) else None)"

subsection \<open>Response dispatcher\<close>

text \<open>\<^verbatim>\<open>if (sensor != nullptr) sensor->publish_state(v)\<close>.\<close>

definition publish_state :: "real \<Rightarrow> real list option \<Rightarrow> real list option" where
  "publish_state v sensor = (case sensor of None \<Rightarrow> None | Some published \<Rightarrow> Some (published @ [v]))"

text \<open>
  \<^verbatim>\<open>handle_frame_()\<close> interprets the frame held by the parse buffer. The locals
  \<^verbatim>\<open>hw_version\<close>, \<^verbatim>\<open>brightness\<close> and \<^verbatim>\<open>fade_rate\<close> are only logged and are left
  out, as is all logging. \<open>payload i\<close> is \<^verbatim>\<open>payload[i]\<close>, that is
  \<^verbatim>\<open>buffer_[4 + i]\<close>.
\<close>

definition handle_frame :: "(real \<Rightarrow> real) \<Rightarrow> shelly \<Rightarrow> bool \<times> shelly" where
  "handle_frame rnd s =
     (let sq = buffer s ! 1;
          cmd = buffer s ! 2;
          payload_len = buffer s ! 3
      in if sq \<noteq> seq s then (False, s)
      else
        let payload = (\<lambda>i. buffer s ! (4 + i)) in
        if cmd = SHELLY_DIMMER_PROTO_CMD_POLL then
          (if payload_len < 16 then (False, s)
           else
             let power_raw = (push_bit 24 (ucast (payload 7)) OR push_bit 16 (ucast (payload 6)) OR
                              push_bit 8 (ucast (payload 5)) OR ucast (payload 4) :: u32);
                 voltage_raw = (push_bit 24 (ucast (payload 11)) OR push_bit 16 (ucast (payload 10)) OR
                                push_bit 8 (ucast (payload 9)) OR ucast (payload 8) :: u32);
                 current_raw = (push_bit 24 (ucast (payload 15)) OR push_bit 16 (ucast (payload 14)) OR
                                push_bit 8 (ucast (payload 13)) OR ucast (payload 12) :: u32);
                 power = (if power_raw > 0
                          then float_div rnd POWER_SCALING_FACTOR (float_of_u32 rnd power_raw) else 0);
                 voltage = (if voltage_raw > 0
                            then float_div rnd VOLTAGE_SCALING_FACTOR (float_of_u32 rnd voltage_raw) else 0);
                 current = (if current_raw > 0
                            then float_div rnd CURRENT_SCALING_FACTOR (float_of_u32 rnd current_raw) else 0);
                 s1 = s\<lparr>power_sensor := publish_state power (power_sensor s)\<rparr>;
                 s2 = s1\<lparr>voltage_sensor := publish_state voltage (voltage_sensor s1)\<rparr>;
                 s3 = s2\<lparr>current_sensor := publish_state current (current_sensor s2)\<rparr>
             in (True, s3))
        else if cmd = SHELLY_DIMMER_PROTO_CMD_VERSION then
          (if payload_len < 2 then (False, s)
           else (True, s\<lparr>version_minor := payload 0, version_major := payload 1\<rparr>))
        else if cmd = SHELLY_DIMMER_PROTO_CMD_SWITCH \<or> cmd = SHELLY_DIMMER_PROTO_CMD_SETTINGS then
          (\<not> (payload_len < 1 \<or> payload 0 \<noteq> 0x01), s)
        else (False, s))"

subsection \<open>Command transceiver\<close>

text \<open>
  \<^verbatim>\<open>read_frame_()\<close>: the loop runs while the transport has a byte. The value that
  \<^verbatim>\<open>handle_frame_()\<close> returns is dropped by the source. A \<^verbatim>\<open>switch\<close> without a
  default leaves the state alone for any other value.
\<close>

function read_frame :: "nat \<Rightarrow> (real \<Rightarrow> real) \<Rightarrow> shelly \<Rightarrow> bool \<times> shelly" where
  "read_frame cap rnd s =
     (if available s then
        (let (c, s1) = read s;
             s2 = s1\<lparr>buffer := (buffer s1)[unat (buffer_pos s1) := c]\<rparr>;
             r = handle_byte cap s2 c
         in if r = 0 then
              (let (handled, s3) = handle_frame rnd s2 in (True, s3\<lparr>buffer_pos := 0\<rparr>))
            else if r = - 1 then read_frame cap rnd (s2\<lparr>buffer_pos := 0\<rparr>)
            else if r = 1 then read_frame cap rnd (s2\<lparr>buffer_pos := buffer_pos s2 + 1\<rparr>)
            else read_frame cap rnd s2)
      else (False, s))"
  by pat_completeness auto
termination
  by (relation "measure (\<lambda>(cap, rnd, s). length (rx_fifo (env s)))")
     (auto simp: available_def read_def)

declare read_frame.simps [simp del]

lemma handle_frame_env: "env (snd (handle_frame rnd s)) = env s"
  by (simp add: handle_frame_def Let_def)

lemma handle_frame_buffer_pos:
  "handle_frame rnd (s\<lparr>buffer_pos := x\<rparr>) =
     (fst (handle_frame rnd s), (snd (handle_frame rnd s))\<lparr>buffer_pos := x\<rparr>)"
  by (simp add: handle_frame_def Let_def)

lemma parse_byte_env: "env (snd (parse_byte cap c s)) = env s"
  by (simp add: parse_byte_def Let_def)

text \<open>The loop of \<^verbatim>\<open>read_frame_\<close>, one byte at a time, in terms of \<open>parse_byte\<close>.\<close>

lemma read_frame_Nil: "rx_fifo (env s) = [] \<Longrightarrow> read_frame cap rnd s = (False, s)"
  by (subst read_frame.simps) (simp add: available_def)

lemma read_frame_Cons:
  assumes "rx_fifo (env s) = c # rest"
  shows "read_frame cap rnd s =
           (let (r, s1) = parse_byte cap c (s\<lparr>env := (env s)\<lparr>rx_fifo := rest\<rparr>\<rparr>)
            in if r = 0 then (True, snd (handle_frame rnd s1)) else read_frame cap rnd s1)"
  using assms
  by (subst read_frame.simps)
     (simp add: available_def read_def parse_byte_def Let_def handle_frame_buffer_pos
           split: prod.splits)

lemma read_frame_clock: "clock (env (snd (read_frame cap rnd s))) = clock (env s)"
proof (induction "rx_fifo (env s)" arbitrary: s)
  case Nil
  then show ?case by (simp add: read_frame_Nil)
next
  case (Cons c rest)
  let ?s0 = "s\<lparr>env := (env s)\<lparr>rx_fifo := rest\<rparr>\<rparr>"
  obtain r s1 where p: "parse_byte cap c ?s0 = (r, s1)" by (cases "parse_byte cap c ?s0")
  then have e: "env s1 = env ?s0" using parse_byte_env[of cap c ?s0] by simp
  then have "clock (env (snd (read_frame cap rnd s1))) = clock (env s1)"
    using Cons.hyps(1)[of s1] by simp
  then show ?case
    using Cons.hyps(2)[symmetric] p e
    by (simp add: read_frame_Cons handle_frame_env)
qed


text \<open>
  The inner loop of \<^verbatim>\<open>send_command_\<close>:
  \<^verbatim>\<open>while (millis() - tx_time < SHELLY_DIMMER_ACK_TIMEOUT) { if (read_frame_()) return true; delay(1); }\<close>.
  The subtraction is made in \<^verbatim>\<open>uint32_t\<close> and wraps. The first component of the
  result tells whether the function returned from inside the loop.
\<close>

function wait_reply :: "nat \<Rightarrow> (real \<Rightarrow> real) \<Rightarrow> u32 \<Rightarrow> shelly \<Rightarrow> bool \<times> shelly" where
  "wait_reply cap rnd tx_time s =
     (if millis s - tx_time < ucast SHELLY_DIMMER_ACK_TIMEOUT then
        (let (got, s1) = read_frame cap rnd s
         in if got then (True, s1) else wait_reply cap rnd tx_time (delay 1 s1))
      else (False, s))"
  by pat_completeness auto

lemma unat_succ_below: "(x::u32) < 200 \<Longrightarrow> unat (x + 1) = Suc (unat x)"
  by (simp add: unat_word_ariths word_less_nat_alt)

lemma millis_delay1: "millis (delay 1 s) - t = (millis s - t) + 1"
  by (simp add: millis_def delay_def tick_def)

termination wait_reply
proof (relation "measure (\<lambda>(cap, rnd, tx_time, s). 200 - unat (millis s - tx_time))")
  show "wf (measure (\<lambda>(cap, rnd, tx_time, s). 200 - unat (millis s - tx_time)))"
    by simp
next
  fix cap :: nat and rnd :: "real \<Rightarrow> real" and tx_time s x got s1
  assume lt: "millis s - tx_time < ucast SHELLY_DIMMER_ACK_TIMEOUT"
    and x: "x = read_frame cap rnd s" "(got, s1) = x"
  have "read_frame cap rnd s = (got, s1)"
    using x by simp
  then have "millis s1 = millis s"
    using read_frame_clock[of cap rnd s] by (simp add: millis_def)
  then have m: "millis (delay 1 s1) - tx_time = millis s - tx_time + 1"
    using millis_delay1[of s1 tx_time] by simp
  have b: "unat (millis s - tx_time) < 200"
    using lt by (simp add: word_less_nat_alt)
  have c: "unat (millis s - tx_time + 1) = Suc (unat (millis s - tx_time))"
    using lt by (intro unat_succ_below) simp
  show "((cap, rnd, tx_time, delay 1 s1), cap, rnd, tx_time, s)
          \<in> measure (\<lambda>(cap, rnd, tx_time, s). 200 - unat (millis s - tx_time))"
    unfolding in_measure prod.case m c using b by simp
qed

declare wait_reply.simps [simp del]

text \<open>
  The outer loop, \<^verbatim>\<open>while (retries--)\<close>: each round writes the whole frame and waits
  for a reply; \<open>retries\<close> counts the rounds left.
\<close>

fun send_retry :: "nat \<Rightarrow> (real \<Rightarrow> real) \<Rightarrow> u8 list \<Rightarrow> nat \<Rightarrow> shelly \<Rightarrow> bool \<times> shelly" where
  "send_retry cap rnd frame 0 s = (False, s)"
| "send_retry cap rnd frame (Suc retries) s =
     (let s1 = flush (write_array frame s);
          tx_time = millis s1;
          (got, s2) = wait_reply cap rnd tx_time s1
      in if got then (True, s2) else send_retry cap rnd frame retries s2)"

text \<open>
  \<^verbatim>\<open>send_command_(cmd, payload, len)\<close>. The local array \<^verbatim>\<open>frame\<close> is not initialised
  by the source; \<^verbatim>\<open>frame_command_\<close> writes every byte that is transmitted afterwards
  whenever \<open>payload\<close> holds \<open>len\<close> bytes (or is null with \<open>len = 0\<close>), which is how
  every call in this file uses it. The model starts from an array of zeros.
\<close>

definition send_command :: "nat \<Rightarrow> (real \<Rightarrow> real) \<Rightarrow> u8 \<Rightarrow> u8 list option \<Rightarrow> u8 \<Rightarrow> shelly \<Rightarrow> bool \<times> shelly" where
  "send_command cap rnd cmd payload len s =
     (let frame = replicate SHELLY_DIMMER_PROTO_MAX_FRAME_SIZE 0;
          (frame', frame_len, s1) = frame_command frame cmd payload (unat len) s
      in send_retry cap rnd (take frame_len frame') (unat SHELLY_DIMMER_MAX_RETRIES) s1)"

subsection \<open>Brightness\<close>

text \<open>
  \<^verbatim>\<open>convert_brightness_(brightness)\<close>. The two bounds are \<^verbatim>\<open>uint16_t\<close> members, so
  their difference is computed in \<^verbatim>\<open>int\<close> and converted to \<^verbatim>\<open>float\<close> exactly; the
  product is rounded; the sum with \<^verbatim>\<open>min_brightness_\<close> is stored into a
  \<^verbatim>\<open>uint16_t\<close> and wraps.
\<close>

definition convert_brightness :: "(real \<Rightarrow> real) \<Rightarrow> shelly \<Rightarrow> real \<Rightarrow> u16 option" where
  "convert_brightness rnd s brightness_f =
     (if brightness_f = 0 then Some 0
      else
        case float_to_uint16
               (float_mul rnd brightness_f
                  (real_of_int (uint (max_brightness s) - uint (min_brightness s)))) of
          None \<Rightarrow> None
        | Some brightness_int \<Rightarrow>
            Some (min (brightness_int + min_brightness s) SHELLY_DIMMER_MAX_BRIGHTNESS))"

definition send_brightness :: "nat \<Rightarrow> (real \<Rightarrow> real) \<Rightarrow> u16 \<Rightarrow> shelly \<Rightarrow> shelly" where
  "send_brightness cap rnd b s =
     (let payload = [ucast (b AND 0xff), ucast (drop_bit 8 b)];
          (sent, s1) = send_command cap rnd SHELLY_DIMMER_PROTO_CMD_SWITCH (Some payload)
                         SHELLY_DIMMER_PROTO_CMD_SWITCH_SIZE s
      in s1\<lparr>brightness := b\<rparr>)"

text \<open>
  \<^verbatim>\<open>send_settings_()\<close>. The result is \<open>None\<close> when the conversion of the brightness
  is undefined.
\<close>

definition send_settings :: "nat \<Rightarrow> (real \<Rightarrow> real) \<Rightarrow> shelly \<Rightarrow> shelly option" where
  "send_settings cap rnd s =
     (let fade = min 100 (fade_rate s);
          brightness_f = (case state s of None \<Rightarrow> 0 | Some v \<Rightarrow> v)
      in case convert_brightness rnd s brightness_f of
           None \<Rightarrow> None
         | Some brightness_int \<Rightarrow>
             let payload =
                   [ucast (brightness_int AND 0xff), ucast (drop_bit 8 brightness_int),
                    (if leading_edge s then 0x01 else 0x02), 0x00,
                    ucast (fade AND 0xff), ucast (drop_bit 8 fade),
                    ucast (warmup_brightness s AND 0xff), ucast (drop_bit 8 (warmup_brightness s)),
                    ucast (warmup_time s AND 0xff), ucast (drop_bit 8 (warmup_time s))];
                 (sent, s1) = send_command cap rnd SHELLY_DIMMER_PROTO_CMD_SETTINGS (Some payload)
                                SHELLY_DIMMER_PROTO_CMD_SETTINGS_SIZE s
             in Some (send_brightness cap rnd brightness_int s1))"

text \<open>
  \<^verbatim>\<open>write_state(state)\<close>; \<open>level\<close> is the brightness that
  \<^verbatim>\<open>state->current_values_as_brightness\<close> yields.
\<close>

definition write_state :: "nat \<Rightarrow> (real \<Rightarrow> real) \<Rightarrow> real \<Rightarrow> shelly \<Rightarrow> shelly option" where
  "write_state cap rnd level s =
     (if \<not> ready s then Some s
      else
        case convert_brightness rnd s level of
          None \<Rightarrow> None
        | Some brightness_int \<Rightarrow>
            if brightness_int = brightness s then Some s
            else Some (send_brightness cap rnd brightness_int s))"


subsection \<open>Firmware upgrade and initialisation\<close>

text \<open>
  The firmware image and its version come from the macros \<^verbatim>\<open>SHD_FIRMWARE_DATA\<close>,
  \<^verbatim>\<open>SHD_FIRMWARE_MAJOR_VERSION\<close> and \<^verbatim>\<open>SHD_FIRMWARE_MINOR_VERSION\<close>, which the
  build defines; they are the fields of the parameter \<open>img\<close>.
\<close>

record firmware =
  SHD_FIRMWARE_MAJOR_VERSION :: u8
  SHD_FIRMWARE_MINOR_VERSION :: u8
  SHD_FIRMWARE_DATA :: "u8 list"

text \<open>
  The flashing library of stm32flash.h is not among the sources. Its four functions
  are the fields of the parameter \<open>lib\<close>; each works on the transport and the clock and
  returns whether it succeeded (\<^verbatim>\<open>STM32_ERR_OK\<close>). \<open>stm32_init\<close> returns the flash
  start address \<^verbatim>\<open>stm32->dev->fl_start\<close> of the device it found, or \<open>None\<close> for a
  null handle.
\<close>

record stm32flash =
  stm32_init :: "env \<Rightarrow> u32 option \<times> env"
  stm32_erase_memory :: "env \<Rightarrow> bool \<times> env"
  stm32_write_memory :: "u32 \<Rightarrow> u8 list \<Rightarrow> env \<Rightarrow> bool \<times> env"
  stm32_close :: "env \<Rightarrow> env"

definition mark_failed :: "shelly \<Rightarrow> shelly" where
  "mark_failed s = s\<lparr>failed := True\<rparr>"

text \<open>The loop \<^verbatim>\<open>while (this->available()) this->read();\<close> of \<^verbatim>\<open>reset_\<close>.\<close>

function clear_rx :: "shelly \<Rightarrow> shelly" where
  "clear_rx s = (if available s then clear_rx (snd (read s)) else s)"
  by pat_completeness auto
termination
  by (relation "measure (\<lambda>s. length (rx_fifo (env s)))") (auto simp: available_def read_def)

declare clear_rx.simps [simp del]

definition reset :: "bool \<Rightarrow> shelly \<Rightarrow> shelly" where
  "reset boot0 s =
     (let s1 = s\<lparr>pin_boot0 := boot0\<rparr>;
          s2 = s1\<lparr>pin_nrst := False\<rparr>;
          s3 = delay 50 s2;
          s4 = clear_rx s3;
          s5 = s4\<lparr>pin_nrst := True\<rparr>
      in delay 50 s5)"

text \<open>\<^verbatim>\<open>Serial.begin(115200, SERIAL_8N1)\<close> and \<^verbatim>\<open>SERIAL_8E1\<close> select the parity.\<close>

definition reset_normal_boot :: "shelly \<Rightarrow> shelly" where
  "reset_normal_boot s = reset False (flush (s\<lparr>env := (env s)\<lparr>parity_even := False\<rparr>\<rparr>))"

definition reset_dfu_boot :: "shelly \<Rightarrow> shelly" where
  "reset_dfu_boot s = reset True (flush (s\<lparr>env := (env s)\<lparr>parity_even := True\<rparr>\<rparr>))"

definition close_stm32 :: "stm32flash \<Rightarrow> shelly \<Rightarrow> shelly" where
  "close_stm32 lib s =
     s\<lparr>env := stm32_close lib (env s), stm32_log := stm32_log s @ [Stm32_close]\<rparr>"

text \<open>
  The copy loop of \<^verbatim>\<open>upgrade_firmware_\<close>. \<open>p\<close> is the offset of the read pointer
  into the image, \<open>fl_end\<close> the local \<^verbatim>\<open>end\<close>. All of \<^verbatim>\<open>addr\<close>, \<^verbatim>\<open>end\<close>,
  \<^verbatim>\<open>offset\<close>, \<^verbatim>\<open>left\<close> and \<^verbatim>\<open>len\<close> are \<^verbatim>\<open>uint32_t\<close>. The first component
  of the result is false when the function returned from inside the loop.
\<close>

function write_chunks ::
  "stm32flash \<Rightarrow> u8 list \<Rightarrow> u32 \<Rightarrow> u32 \<Rightarrow> u32 \<Rightarrow> nat \<Rightarrow> u32 \<Rightarrow> shelly \<Rightarrow> bool \<times> shelly" where
  "write_chunks lib fw fw_len fl_end addr p offset s =
     (if addr < fl_end \<and> offset < fw_len then
        (let left = fl_end - addr;
             len0 = (if 256 > left then left else 256);
             len = (if len0 > fw_len - offset then fw_len - offset else len0)
         in if len = 0 then (True, s)
            else
              let chunk = take (unat len) (take 256 (drop p fw));
                  (ok, e) = stm32_write_memory lib addr chunk (env s);
                  s1 = s\<lparr>env := e, stm32_log := stm32_log s @ [Stm32_write_memory addr chunk]\<rparr>
              in if \<not> ok then (False, close_stm32 lib s1)
                 else write_chunks lib fw fw_len fl_end (addr + len) (p + 256) (offset + len) s1)
      else (True, s))"
  by pat_completeness auto

lemma chunk_measure:
  assumes "(len::u32) \<noteq> 0" "len \<le> fw_len - offset"
  shows "unat (fw_len - (offset + len)) < unat (fw_len - offset)"
proof -
  have e: "fw_len - (offset + len) = (fw_len - offset) - len" by simp
  have "unat ((fw_len - offset) - len) = unat (fw_len - offset) - unat len"
    using assms(2) by (simp add: unat_sub)
  moreover have "0 < unat len" using assms(1) by (simp add: unat_gt_0)
  moreover have "unat len \<le> unat (fw_len - offset)" using assms(2) by (simp add: word_le_nat_alt)
  ultimately show ?thesis unfolding e by linarith
qed

lemma chunk_len_le:
  "(if (len0::u32) > d then d else len0) \<le> d"
  by (simp add: not_less)

termination write_chunks
proof (relation "measure (\<lambda>(lib, fw, fw_len, fl_end, addr, p, offset, s). unat (fw_len - offset))")
  show "wf (measure (\<lambda>(lib, fw, fw_len, fl_end, addr, p, offset, s). unat (fw_len - offset)))"
    by simp
next
  fix lib :: stm32flash and fw :: "u8 list" and fw_len fl_end addr :: u32 and p :: nat
    and offset :: u32 and s :: shelly and left len0 len :: u32 and s1 :: shelly
  assume "len0 = (if 256 > left then left else 256)"
    and len: "len = (if len0 > fw_len - offset then fw_len - offset else len0)"
    and nz: "len \<noteq> 0"
  have "len \<le> fw_len - offset" unfolding len by (rule chunk_len_le)
  then show "((lib, fw, fw_len, fl_end, addr + len, p + 256, offset + len, s1),
               lib, fw, fw_len, fl_end, addr, p, offset, s)
              \<in> measure (\<lambda>(lib, fw, fw_len, fl_end, addr, p, offset, s). unat (fw_len - offset))"
    using nz by (simp add: chunk_measure)
qed

declare write_chunks.simps [simp del]

definition upgrade_firmware :: "stm32flash \<Rightarrow> firmware \<Rightarrow> shelly \<Rightarrow> bool \<times> shelly" where
  "upgrade_firmware lib img s =
     (let s1 = reset_dfu_boot s;
          (dev, e1) = stm32_init lib (env s1);
          s2 = s1\<lparr>env := e1, stm32_log := stm32_log s1 @ [Stm32_init]\<rparr>
      in case dev of
           None \<Rightarrow> (False, s2)
         | Some fl_start \<Rightarrow>
             let (erased, e2) = stm32_erase_memory lib (env s2);
                 s3 = s2\<lparr>env := e2, stm32_log := stm32_log s2 @ [Stm32_erase_memory]\<rparr>
             in if \<not> erased then (False, close_stm32 lib s3)
                else
                  let fw = SHD_FIRMWARE_DATA img;
                      fw_len = of_nat (length fw);
                      addr = fl_start;
                      fl_end = addr + fw_len;
                      (written, s4) = write_chunks lib fw fw_len fl_end addr 0 0 s3
                  in if \<not> written then (False, s4) else (True, close_stm32 lib s4))"

text \<open>
  The loop \<^verbatim>\<open>for (int i = 0; i < 2; i++)\<close> of \<^verbatim>\<open>setup()\<close>. The first component of
  the result is false when \<^verbatim>\<open>setup\<close> returned from inside the loop.
\<close>

function setup_loop ::
  "stm32flash \<Rightarrow> firmware \<Rightarrow> nat \<Rightarrow> (real \<Rightarrow> real) \<Rightarrow> nat \<Rightarrow> shelly \<Rightarrow> bool \<times> shelly" where
  "setup_loop lib img cap rnd i s =
     (if i < 2 then
        (let s1 = reset_normal_boot s;
             (sent, s2) = send_command cap rnd SHELLY_DIMMER_PROTO_CMD_VERSION None 0 s1
         in if version_major s2 \<noteq> SHD_FIRMWARE_MAJOR_VERSION img \<or>
               version_minor s2 \<noteq> SHD_FIRMWARE_MINOR_VERSION img then
              (if i > 0 then (False, mark_failed s2)
               else
                 let (upgraded, s3) = upgrade_firmware lib img s2
                 in if \<not> upgraded then (False, mark_failed s3)
                    else setup_loop lib img cap rnd (i + 1) s3)
            else (True, s2))
      else (True, s))"
  by pat_completeness auto
termination
  by (relation "measure (\<lambda>(lib, img, cap, rnd, i, s). 2 - i)") auto

declare setup_loop.simps [simp del]

text \<open>
  \<^verbatim>\<open>setup()\<close>. Configuring the two pins (\<^verbatim>\<open>pin->setup()\<close>) changes nothing that is
  modelled. The result is \<open>None\<close> when \<^verbatim>\<open>send_settings_\<close> is undefined.
\<close>

definition shelly_setup ::
  "stm32flash \<Rightarrow> firmware \<Rightarrow> nat \<Rightarrow> (real \<Rightarrow> real) \<Rightarrow> shelly \<Rightarrow> shelly option" where
  "shelly_setup lib img cap rnd s =
     (let (go_on, s1) = setup_loop lib img cap rnd 0 s
      in if \<not> go_on then Some s1
         else
           let s2 = s1\<lparr>poll_interval := Some 10000\<rparr>
           in case send_settings cap rnd s2 of
                None \<Rightarrow> None
              | Some s3 \<Rightarrow>
                  let (sent, s4) = send_command cap rnd SHELLY_DIMMER_PROTO_CMD_POLL None 0 s3
                  in Some (s4\<lparr>ready := True\<rparr>))"


subsection \<open>A state to run the model on\<close>

text \<open>
  An idle line, and a component as it is constructed on it, with a parse buffer of
  \<open>cap\<close> bytes. The concrete runs below start from it.
\<close>

definition quiet :: env where
  "quiet = \<lparr>clock = 0, rx_fifo = [], rx_future = [], tx_log = [], parity_even = False\<rparr>"

definition fresh :: "nat \<Rightarrow> shelly" where
  "fresh cap =
     \<lparr>seq = 0, buffer = replicate cap 0, buffer_pos = 0, version_major = 0, version_minor = 0,
      leading_edge = False, min_brightness = 0, max_brightness = 1000,
      warmup_brightness = 100, warmup_time = 20, fade_rate = 0, state = None,
      power_sensor = None, voltage_sensor = None, current_sensor = None,
      ready = False, brightness = 0, failed = False, poll_interval = None,
      pin_boot0 = False, pin_nrst = False, stm32_log = [], env = quiet\<rparr>"

subsection \<open>What a command leaves alone; a line that stays silent\<close>

text \<open>
  \<open>members\<close> collects the members that neither receiving nor waiting touches: all but
  the parse buffer, its cursor, the firmware version and the sensors. \<open>settled\<close> adds
  the log of the transmitted frames, which receiving does not touch either.
\<close>

definition members ::
  "shelly \<Rightarrow> u8 \<times> bool \<times> u16 \<times> u16 \<times> u16 \<times> u16 \<times> u16 \<times> real option \<times> bool \<times> u16 \<times>
     bool \<times> nat option \<times> bool \<times> bool \<times> stm32_call list" where
  "members s =
     (seq s, leading_edge s, min_brightness s, max_brightness s, warmup_brightness s,
      warmup_time s, fade_rate s, state s, ready s, brightness s, failed s,
      poll_interval s, pin_boot0 s, pin_nrst s, stm32_log s)"

definition settled ::
  "shelly \<Rightarrow> (u8 \<times> bool \<times> u16 \<times> u16 \<times> u16 \<times> u16 \<times> u16 \<times> real option \<times> bool \<times> u16 \<times>
     bool \<times> nat option \<times> bool \<times> bool \<times> stm32_call list) \<times> u8 list list" where
  "settled s = (members s, tx_log (env s))"

text \<open>A transport that never makes a byte available: none is waiting and none arrives.\<close>

definition silent :: "env \<Rightarrow> bool" where
  "silent e = (rx_fifo e = [] \<and> (\<forall>b \<in> set (rx_future e). b = []))"

text \<open>
  A stale reply: the counter stands at 4, so the next command carries sequence 5, and
  during the first millisecond of the wait the peer delivers a well-formed
  acknowledgement of a switch command that carries sequence 9.
\<close>

definition stale_reply :: shelly where
  "stale_reply =
     (fresh 79)\<lparr>seq := 4,
       env := quiet\<lparr>rx_future := [[0x01, 0x09, 0x01, 0x01, 0x01, 0x00, 0x0C, 0x04]]\<rparr>\<rparr>"

text \<open>
  A poll report that matches the outstanding sequence number 5, as the parser leaves it
  in the buffer: 17 payload bytes, a raw power of 0, a raw voltage of 1512 and a raw
  current of 0. A power and a voltage sensor are attached, no current sensor.
\<close>

definition poll_report :: shelly where
  "poll_report =
     (fresh 79)\<lparr>seq := 5,
       buffer := [0x01, 0x05, 0x10, 0x11,
                  0x01, 0x00, 0xF4, 0x01,
                  0x00, 0x00, 0x00, 0x00,
                  0xE8, 0x05, 0x00, 0x00,
                  0x00, 0x00, 0x00, 0x00,
                  0x00, 0x02, 0x09, 0x04] @ replicate 55 0,
       power_sensor := Some [], voltage_sensor := Some []\<rparr>"

text \<open>Arithmetic without rounding error: what \<^verbatim>\<open>float\<close> arithmetic does wherever the exact
  result is representable.\<close>

definition exact :: "real \<Rightarrow> real" where
  "exact x = x"

subsection \<open>Initialisation: what the claims speak of\<close>

text \<open>
  Every run of \<^verbatim>\<open>upgrade_firmware_\<close> calls \<^verbatim>\<open>stm32_init\<close> exactly once, so the number
  of flash attempts made so far is the number of \<open>Stm32_init\<close> entries in the log.
\<close>

definition flashes :: "shelly \<Rightarrow> nat" where
  "flashes s = count_list (stm32_log s) Stm32_init"

text \<open>
  The first two statements of the loop body of \<^verbatim>\<open>setup()\<close>, a version check, and the
  condition that follows them.
\<close>

definition check_version :: "nat \<Rightarrow> (real \<Rightarrow> real) \<Rightarrow> shelly \<Rightarrow> shelly" where
  "check_version cap rnd s =
     snd (send_command cap rnd SHELLY_DIMMER_PROTO_CMD_VERSION None 0 (reset_normal_boot s))"

definition version_mismatch :: "firmware \<Rightarrow> shelly \<Rightarrow> bool" where
  "version_mismatch img s =
     (version_major s \<noteq> SHD_FIRMWARE_MAJOR_VERSION img \<or>
      version_minor s \<noteq> SHD_FIRMWARE_MINOR_VERSION img)"

text \<open>
  \<open>standing\<close> is what neither resetting the peer nor sending a command changes;
  \<open>steady\<close> is what a firmware upgrade does not change either, but for one more flash
  attempt.
\<close>

definition standing :: "shelly \<Rightarrow> bool \<times> bool \<times> nat option \<times> stm32_call list" where
  "standing s = (ready s, failed s, poll_interval s, stm32_log s)"

definition steady :: "shelly \<Rightarrow> bool \<times> bool \<times> nat option \<times> nat" where
  "steady s = (ready s, failed s, poll_interval s, flashes s)"

text \<open>
  A flashing library whose every call succeeds at once, a firmware image of 300 bytes
  with version 51.6, and a peer that answers every version request with version 50.1:
  its two replies, with the sequence numbers 1 and 2, arrive in the first millisecond
  of the first and of the second wait.
\<close>

definition willing :: stm32flash where
  "willing =
     \<lparr>stm32_init = (\<lambda>e. (Some 0x08000000, e)),
      stm32_erase_memory = (\<lambda>e. (True, e)),
      stm32_write_memory = (\<lambda>addr bytes e. (True, e)),
      stm32_close = (\<lambda>e. e)\<rparr>"

definition image :: firmware where
  "image =
     \<lparr>SHD_FIRMWARE_MAJOR_VERSION = 51, SHD_FIRMWARE_MINOR_VERSION = 6,
      SHD_FIRMWARE_DATA = replicate 300 0xAB\<rparr>"

definition stubborn :: shelly where
  "stubborn =
     (fresh 79)\<lparr>env := quiet\<lparr>rx_future :=
        replicate 100 [] @ [[0x01, 0x01, 0x11, 0x02, 0x01, 0x32, 0x00, 0x47, 0x04]] @
        replicate 200 [] @ [[0x01, 0x02, 0x11, 0x02, 0x01, 0x32, 0x00, 0x48, 0x04]]\<rparr>\<rparr>"

section \<open>The wire format of the specification\<close>

text \<open>
  The frame as the specification lays it out byte by byte: start marker, sequence,
  command, payload length, payload, the checksum (the sum of the bytes from the
  sequence byte to the end of the payload, modulo 65536) high byte first, end marker.
  These two definitions follow the specification, not the source; the source's codec
  is compared with them below.
\<close>

definition wire_checksum :: "u8 list \<Rightarrow> u16" where
  "wire_checksum bytes = of_nat (sum_list (map unat bytes) mod 65536)"

definition wire_frame :: "u8 \<Rightarrow> u8 \<Rightarrow> u8 list \<Rightarrow> u8 list" where
  "wire_frame sq cmd p =
     (let body = [sq, cmd, of_nat (length p)] @ p;
          csum = wire_checksum body
      in [0x01] @ body @ [of_nat (unat csum div 256), of_nat (unat csum mod 256), 0x04])"

text \<open>
  The telemetry fields of the specification: a raw reading is the little-endian value
  of four payload bytes, and the physical value is the scaling constant divided by the
  raw reading when that is positive, else 0. \<open>raw_reading s i\<close> reads the four bytes at
  payload offset \<open>i\<close> of the frame in the parse buffer. The division and the conversion
  of the reading are \<^verbatim>\<open>float\<close> operations and round.
\<close>

definition le32 :: "u8 \<Rightarrow> u8 \<Rightarrow> u8 \<Rightarrow> u8 \<Rightarrow> nat" where
  "le32 b0 b1 b2 b3 = unat b0 + 2 ^ 8 * unat b1 + 2 ^ 16 * unat b2 + 2 ^ 24 * unat b3"

definition raw_reading :: "shelly \<Rightarrow> nat \<Rightarrow> nat" where
  "raw_reading s i =
     le32 (buffer s ! (4 + i)) (buffer s ! (4 + (i + 1))) (buffer s ! (4 + (i + 2)))
          (buffer s ! (4 + (i + 3)))"

definition decoded :: "(real \<Rightarrow> real) \<Rightarrow> real \<Rightarrow> nat \<Rightarrow> real" where
  "decoded rnd scaling raw = (if raw = 0 then 0 else float_div rnd scaling (rnd (real raw)))"

section \<open>Codec and parser: auxiliary facts\<close>

lemma checksum_loop_sum: "checksum_loop bs acc = acc + of_nat (sum_list (map unat bs))"
  by (induction bs arbitrary: acc) (simp_all add: algebra_simps)

lemma shelly_dimmer_checksum_wire: "shelly_dimmer_checksum bs = wire_checksum bs"
  apply (simp add: shelly_dimmer_checksum_def wire_checksum_def checksum_loop_sum)
  apply (simp add: word_of_nat_eq_iff take_bit_eq_mod)
  done

lemma mask_ff: "(x::u16) AND 0xff = take_bit 8 x"
  using take_bit_eq_mask[of 8 x] by (simp add: mask_eq_exp_minus_1)

lemma csum_join: "push_bit 8 (ucast (ucast (drop_bit 8 (x::u16)) :: u8)) OR ucast (ucast (x AND 0xff) :: u8) = x"
  unfolding mask_ff
  apply (rule bit_word_eqI)
  apply (auto simp add: bit_simps)
  done




lemma ucast_of_nat_unat: "(ucast (w::u16) :: u8) = of_nat (unat w)"
  by (simp only: of_nat_unat)

lemma csum_high: "(ucast (drop_bit 8 (x::u16)) :: u8) = of_nat (unat x div 256)"
proof -
  have "unat (drop_bit 8 x) = unat x div 256"
    by (simp add: drop_bit_eq_div unat_div)
  then show ?thesis
    by (simp only: ucast_of_nat_unat)
qed

lemma csum_low: "(ucast ((x::u16) AND 0xff) :: u8) = of_nat (unat x mod 256)"
proof -
  have "unat (take_bit 8 x) = unat x mod 256"
    by (simp add: take_bit_eq_mod unat_mod)
  then show ?thesis
    by (simp only: ucast_of_nat_unat mask_ff)
qed


lemma wire_frame_Cons:
  "wire_frame sq cmd p =
     1 # sq # cmd # of_nat (length p) # p @
       [ucast (drop_bit 8 (shelly_dimmer_checksum (sq # cmd # of_nat (length p) # p))),
        ucast (shelly_dimmer_checksum (sq # cmd # of_nat (length p) # p) AND 0xff), 4]"
  by (simp add: wire_frame_def Let_def csum_high csum_low shelly_dimmer_checksum_wire)

lemma length_wire_frame: "length (wire_frame sq cmd p) = length p + 7"
  by (simp add: wire_frame_Cons)

lemma wire_frame_nth0: "wire_frame sq cmd p ! 0 = 1"
  by (simp add: wire_frame_Cons)

lemma wire_frame_nth3: "wire_frame sq cmd p ! 3 = of_nat (length p)"
  by (simp add: wire_frame_Cons)

lemma wire_frame_body:
  "take (3 + length p) (drop 1 (wire_frame sq cmd p)) = sq # cmd # of_nat (length p) # p"
  by (simp add: wire_frame_Cons numeral_3_eq_3)

lemma wire_frame_csum:
  "push_bit 8 (ucast (wire_frame sq cmd p ! (length p + 4))) OR ucast (wire_frame sq cmd p ! (length p + 5))
     = shelly_dimmer_checksum (sq # cmd # of_nat (length p) # p)"
  by (simp add: wire_frame_Cons nth_append csum_join)

lemma wire_frame_end: "wire_frame sq cmd p ! (length p + 6) = 4"
  by (simp add: wire_frame_Cons nth_append)


lemma unat_u8_of_nat: "n < 256 \<Longrightarrow> unat (of_nat n :: u8) = n"
  by (simp add: unat_of_nat)

lemma u8_eq_0: "unat (w::u8) = k \<Longrightarrow> (w = 0) = (k = 0)"
  by (auto simp: unat_eq_0)

lemma u8_less_4: "unat (w::u8) = k \<Longrightarrow> (w < 4) = (k < 4)"
  by (auto simp: word_less_nat_alt)

lemma unat_u8_Suc: "unat (w::u8) = k \<Longrightarrow> k < 255 \<Longrightarrow> unat (w + 1) = Suc k"
  by (simp add: unat_word_ariths)

lemma handle_byte_frame:
  assumes n: "n = length p" "n \<le> 249" "n + 7 \<le> cap"
    and F: "F = wire_frame sq cmd p"
    and k: "k < n + 7" "unat (buffer_pos s) = k"
    and buf: "take (Suc k) (buffer s) = take (Suc k) F" "length (buffer s) = cap"
  shows "handle_byte cap s (F ! k) = (if k = n + 6 then 0 else 1)"
proof -
  have nth: "\<And>i. i \<le> k \<Longrightarrow> buffer s ! i = F ! i"
    using buf(1) by (metis le_imp_less_Suc nth_take)
  consider "k = 0" | "0 < k" "k < 4" | "4 \<le> k" "k < n + 5" | "k = n + 5" | "k = n + 6"
    using k(1) by linarith
  then show ?thesis
  proof cases
    case 1
    then show ?thesis
      using k(2) F by (simp add: handle_byte_def u8_eq_0 wire_frame_nth0)
  next
    case 2
    then show ?thesis
      using k(2) by (simp add: handle_byte_def Let_def u8_eq_0 u8_less_4)
  next
    case 3
    have "buffer s ! 3 = of_nat n" using nth[of 3] 3 F n by (simp add: wire_frame_nth3)
    then show ?thesis
      using 3 k(2) n by (simp add: handle_byte_def Let_def u8_eq_0 u8_less_4 unat_u8_of_nat)
  next
    case 4
    have l: "buffer s ! 3 = of_nat n" using nth[of 3] 4 F n by (simp add: wire_frame_nth3)
    have "take (3 + n) (drop 1 (buffer s)) = take (3 + n) (drop 1 (take (Suc k) (buffer s)))"
      using 4 by (simp add: drop_take)
    also have "\<dots> = take (3 + n) (drop 1 F)"
      using 4 buf(1) by (simp add: drop_take)
    finally have body: "take (3 + n) (drop 1 (buffer s)) = sq # cmd # of_nat n # p"
      using F n wire_frame_body[of p sq cmd] by simp
    have hi: "buffer s ! (k - 1) = F ! (n + 4)" using nth[of "k - 1"] 4 by (simp add: add.commute)
    have "push_bit 8 (ucast (buffer s ! (k - 1))) OR ucast (F ! k)
            = shelly_dimmer_checksum (sq # cmd # of_nat n # p)"
      using hi 4 F n wire_frame_csum[of sq cmd p] by simp
    then show ?thesis
      using 4 k(2) n l body
      by (simp add: handle_byte_def Let_def u8_eq_0 u8_less_4 unat_u8_of_nat)
  next
    case 5
    have l: "buffer s ! 3 = of_nat n" using nth[of 3] 5 F n by (simp add: wire_frame_nth3)
    have "F ! k = 4" using 5 F n by (simp add: wire_frame_end)
    then show ?thesis
      using 5 k(2) n l
      by (simp add: handle_byte_def Let_def u8_eq_0 u8_less_4 unat_u8_of_nat)
  qed
qed


lemma take_Suc_update:
  "k < length xs \<Longrightarrow> k < length ys \<Longrightarrow> take k xs = take k ys \<Longrightarrow>
     take (Suc k) (xs[k := ys ! k]) = take (Suc k) ys"
  by (simp add: take_Suc_conv_app_nth)

lemma parse_byte_frame:
  assumes n: "n = length p" "n \<le> 249" "n + 7 \<le> cap"
    and F: "F = wire_frame sq cmd p"
    and k: "k < n + 7" "unat (buffer_pos s) = k"
    and buf: "take k (buffer s) = take k F" "length (buffer s) = cap"
  shows "parse_byte cap (F ! k) s =
           (if k = n + 6 then 0 else 1,
            s\<lparr>buffer := (buffer s)[k := F ! k],
              buffer_pos := (if k = n + 6 then 0 else buffer_pos s + 1)\<rparr>)"
proof -
  let ?s1 = "s\<lparr>buffer := (buffer s)[k := F ! k]\<rparr>"
  have "take (Suc k) (buffer ?s1) = take (Suc k) F"
    using take_Suc_update[of k "buffer s" F] k n F buf by (simp add: length_wire_frame)
  then have "handle_byte cap ?s1 (F ! k) = (if k = n + 6 then 0 else 1)"
    using handle_byte_frame[OF n F k(1), of ?s1] k(2) buf(2) by simp
  then show ?thesis
    using k(2) by (simp add: parse_byte_def Let_def)
qed

lemma feed_frame_from:
  assumes n: "n = length p" "n \<le> 249" "n + 7 \<le> cap"
    and F: "F = wire_frame sq cmd p"
  shows "d = n + 6 - k \<Longrightarrow> k < n + 7 \<Longrightarrow> unat (buffer_pos s) = k \<Longrightarrow>
         take k (buffer s) = take k F \<Longrightarrow> length (buffer s) = cap \<Longrightarrow>
         feed cap (drop k F) s =
           (replicate (n + 6 - k) 1 @ [0],
            s\<lparr>buffer := F @ drop (n + 7) (buffer s), buffer_pos := 0\<rparr>)"
proof (induction d arbitrary: k s)
  case 0
  then have k: "k = n + 6" by simp
  have lF: "length F = n + 7" using F n by (simp add: length_wire_frame)
  have drop: "drop k F = [F ! k]"
    using k lF Cons_nth_drop_Suc[of k F] by simp
  have whole: "take k F @ [F ! k] = F"
    using k lF take_Suc_conv_app_nth[of k F] by simp
  have "(buffer s)[k := F ! k] = (take k F @ [F ! k]) @ drop (Suc k) (buffer s)"
    using 0 n k by (simp add: upd_conv_take_nth_drop)
  then have "(buffer s)[k := F ! k] = F @ drop (n + 7) (buffer s)"
    unfolding whole using k by (simp add: add.commute)
  then show ?case
    using parse_byte_frame[OF n F "0.prems"(2,3,4,5)] k drop by simp
next
  case (Suc d)
  then have k: "k < n + 6" by simp
  have lF: "length F = n + 7" using F n by (simp add: length_wire_frame)
  let ?s1 = "s\<lparr>buffer := (buffer s)[k := F ! k], buffer_pos := buffer_pos s + 1\<rparr>"
  have step: "parse_byte cap (F ! k) s = (1, ?s1)"
    using parse_byte_frame[OF n F Suc.prems(2,3,4,5)] k by simp
  have drop: "drop k F = F ! k # drop (Suc k) F"
    using k lF by (simp add: Cons_nth_drop_Suc)
  have "feed cap (drop (Suc k) F) ?s1 =
          (replicate (n + 6 - Suc k) 1 @ [0],
           ?s1\<lparr>buffer := F @ drop (n + 7) (buffer ?s1), buffer_pos := 0\<rparr>)"
  proof (rule Suc.IH)
    show "d = n + 6 - Suc k" using Suc.prems(1) by simp
    show "Suc k < n + 7" using k by simp
    show "unat (buffer_pos ?s1) = Suc k"
      using Suc.prems(3) k n by (simp add: unat_u8_Suc)
    show "take (Suc k) (buffer ?s1) = take (Suc k) F"
      using take_Suc_update[of k "buffer s" F] k n lF Suc.prems by simp
    show "length (buffer ?s1) = cap" using Suc.prems by simp
  qed
  moreover have "replicate (n + 6 - k) (1::int) = 1 # replicate (n + 6 - Suc k) 1"
    using k by (metis Suc_diff_Suc replicate_Suc)
  ultimately show ?case
    using step drop k by simp
qed


lemma upd4:
  "4 \<le> length xs \<Longrightarrow> xs[0 := a, Suc 0 := b, 2 := c, 3 := d] = a # b # c # d # drop 4 xs"
  by (auto simp: numeral_eq_Suc Suc_le_length_iff)

lemma upd3:
  "3 \<le> length xs \<Longrightarrow> xs[0 := a, Suc 0 := b, 2 := c] = a # b # c # drop 3 xs"
  by (auto simp: numeral_eq_Suc Suc_le_length_iff)

lemma frame_command_Some:
  assumes "length p + 7 \<le> length data"
  shows "frame_command data cmd (Some p) (length p) s =
           (wire_frame (seq s + 1) cmd p @ drop (length p + 7) data, length p + 7,
            s\<lparr>seq := seq s + 1\<rparr>)"
proof -
  let ?n = "length p"
  let ?sq = "seq s + 1"
  let ?body = "?sq # cmd # of_nat ?n # p"
  let ?T = "drop (4 + ?n) data"
  have d2: "memcpy (1 # ?sq # cmd # of_nat ?n # drop 4 data) 4 p ?n = (1 # ?body) @ ?T"
    by (simp add: memcpy_def numeral_eq_Suc)
  have body: "take (3 + ?n) (drop (Suc 0) ((1 # ?body) @ ?T)) = ?body"
    by (simp add: numeral_eq_Suc)
  have d3: "((1 # ?body) @ ?T)[4 + ?n := h, 5 + ?n := l, 6 + ?n := e]
              = (1 # ?body) @ [h, l, e] @ drop (?n + 7) data" for h l e
  proof -
    have "((1 # ?body) @ ?T)[4 + ?n := h, 5 + ?n := l, 6 + ?n := e]
            = (1 # ?body) @ ?T[0 := h, Suc 0 := l, 2 := e]"
      by (simp add: list_update_append numeral_eq_Suc)
    also have "?T[0 := h, Suc 0 := l, 2 := e] = h # l # e # drop 3 ?T"
      using assms by (intro upd3) simp
    finally show ?thesis by (simp add: add.commute)
  qed
  have "4 \<le> length data" using assms by simp
  then show ?thesis
    using d2 body d3
    by (simp add: frame_command_def Let_def upd4 wire_frame_Cons del: list_update.simps)
qed



lemma frame_command_None:
  assumes "7 \<le> length data"
  shows "frame_command data cmd None 0 s =
           (wire_frame (seq s + 1) cmd [] @ drop 7 data, 7, s\<lparr>seq := seq s + 1\<rparr>)"
proof -
  have "frame_command data cmd None 0 s = frame_command data cmd (Some []) 0 s"
    by (simp add: frame_command_def memcpy_def Let_def)
  then show ?thesis
    using frame_command_Some[of "[]" data cmd s] assms by simp
qed

lemma handle_byte_range: "handle_byte cap s c \<in> {0, 1, - 1}"
  by (simp add: handle_byte_def Let_def)

lemma parse_byte_reset:
  "parse_byte cap c s = (r, s') \<Longrightarrow> r = 0 \<or> r = - 1 \<Longrightarrow> buffer_pos s' = 0"
  by (auto simp: parse_byte_def Let_def split: if_splits)

lemma parse_byte_length: "length (buffer (snd (parse_byte cap c s))) = length (buffer s)"
  by (simp add: parse_byte_def Let_def)

lemma feed_length: "length (buffer (snd (feed cap g s))) = length (buffer s)"
proof (induction g arbitrary: s)
  case Nil
  then show ?case by simp
next
  case (Cons c g)
  obtain r s1 where p: "parse_byte cap c s = (r, s1)" by (cases "parse_byte cap c s")
  then have "length (buffer s1) = length (buffer s)"
    using parse_byte_length[of cap c s] by simp
  then show ?case
    using Cons.IH[of s1] p by (auto split: prod.splits)
qed

lemma feed_last_reset:
  "feed cap g s = (rs, s1) \<Longrightarrow> rs \<noteq> [] \<Longrightarrow> last rs = 0 \<or> last rs = - 1 \<Longrightarrow> buffer_pos s1 = 0"
proof (induction g arbitrary: s rs s1)
  case Nil
  then show ?case by simp
next
  case (Cons c g)
  obtain r s' where p: "parse_byte cap c s = (r, s')" by (cases "parse_byte cap c s")
  obtain rs' s'' where f: "feed cap g s' = (rs', s'')" by (cases "feed cap g s'")
  have rs: "rs = r # rs'" and s1: "s1 = s''"
    using Cons.prems(1) p f by simp_all
  show ?case
  proof (cases g)
    case Nil
    then have "rs' = []" "s'' = s'" using f by simp_all
    then show ?thesis
      using rs s1 Cons.prems(3) parse_byte_reset[OF p] by simp
  next
    case (Cons a list)
    then have "rs' \<noteq> []" using f by (auto split: prod.splits)
    then show ?thesis
      using Cons.IH[OF f] rs s1 Cons.prems(3) by simp
  qed
qed

lemma feed_wire_frame:
  assumes "length p \<le> 249" "length p + 7 \<le> cap" "length (buffer s) = cap" "buffer_pos s = 0"
  shows "feed cap (wire_frame sq cmd p) s =
           (replicate (length p + 6) 1 @ [0],
            s\<lparr>buffer := wire_frame sq cmd p @ drop (length p + 7) (buffer s), buffer_pos := 0\<rparr>)"
  using feed_frame_from[OF refl assms(1,2) refl, of "length p + 6" 0 s sq cmd] assms(3,4)
  by simp


lemma handle_frame_buffer_pos_same: "buffer_pos (snd (handle_frame rnd s)) = buffer_pos s"
  by (simp add: handle_frame_def Let_def)

lemma read_frame_True_reset:
  "read_frame cap rnd s = (True, s') \<Longrightarrow> buffer_pos s' = 0"
proof (induction "rx_fifo (env s)" arbitrary: s)
  case Nil
  then show ?case by (simp add: read_frame_Nil)
next
  case (Cons c rest)
  let ?s0 = "s\<lparr>env := (env s)\<lparr>rx_fifo := rest\<rparr>\<rparr>"
  obtain r s1 where p: "parse_byte cap c ?s0 = (r, s1)" by (cases "parse_byte cap c ?s0")
  have e: "rest = rx_fifo (env s1)" using parse_byte_env[of cap c ?s0] p by simp
  show ?case
  proof (cases "r = 0")
    case True
    then have "buffer_pos s1 = 0" using parse_byte_reset[OF p] by simp
    then show ?thesis
      using Cons.prems Cons.hyps(2)[symmetric] p True
      by (auto simp: read_frame_Cons handle_frame_buffer_pos_same[of rnd s1, symmetric])
  next
    case False
    then have "read_frame cap rnd s1 = (True, s')"
      using Cons.prems Cons.hyps(2)[symmetric] p by (simp add: read_frame_Cons)
    then show ?thesis using Cons.hyps(1)[OF e] by simp
  qed
qed

section \<open>Transceiver: auxiliary facts\<close>

lemma handle_frame_settled: "settled (snd (handle_frame rnd s)) = settled s"
  by (simp add: handle_frame_def Let_def settled_def members_def)

lemma parse_byte_settled: "settled (snd (parse_byte cap c s)) = settled s"
  by (simp add: parse_byte_def Let_def settled_def members_def)

lemma read_frame_settled: "settled (snd (read_frame cap rnd s)) = settled s"
proof (induction "rx_fifo (env s)" arbitrary: s)
  case Nil
  then show ?case by (simp add: read_frame_Nil)
next
  case (Cons c rest)
  let ?s0 = "s\<lparr>env := (env s)\<lparr>rx_fifo := rest\<rparr>\<rparr>"
  obtain r t where p: "parse_byte cap c ?s0 = (r, t)" by (cases "parse_byte cap c ?s0")
  have e: "rest = rx_fifo (env t)" using parse_byte_env[of cap c ?s0] p by simp
  have k: "settled t = settled s"
    using parse_byte_settled[of cap c ?s0] p by (simp add: settled_def members_def)
  show ?case
    using Cons.hyps(1)[OF e] Cons.hyps(2)[symmetric] p k
    by (simp add: read_frame_Cons handle_frame_settled)
qed

lemma tick_tx_log: "tx_log (tick e) = tx_log e"
  by (simp add: tick_def)

lemma delay_env_tx_log: "tx_log (delay_env n e) = tx_log e"
  by (induction n arbitrary: e) (simp_all add: tick_tx_log)

lemma delay_settled: "settled (delay n s) = settled s"
  by (simp add: delay_def settled_def members_def delay_env_tx_log)

lemma wait_reply_settled: "settled (snd (wait_reply cap rnd tx_time s)) = settled s"
proof (induction cap rnd tx_time s rule: wait_reply.induct)
  case (1 cap rnd tx_time s)
  obtain got t where r: "read_frame cap rnd s = (got, t)" by (cases "read_frame cap rnd s")
  then have k: "settled t = settled s" using read_frame_settled[of cap rnd s] by simp
  show ?case
  proof (cases "millis s - tx_time < ucast SHELLY_DIMMER_ACK_TIMEOUT")
    case False
    then show ?thesis by (simp add: wait_reply.simps)
  next
    case True
    show ?thesis
    proof (cases got)
      case True
      then show ?thesis
        using \<open>millis s - tx_time < ucast SHELLY_DIMMER_ACK_TIMEOUT\<close> r k
        by (subst wait_reply.simps) simp
    next
      case False
      then have "settled (snd (wait_reply cap rnd tx_time (delay 1 t))) = settled (delay 1 t)"
        using "1.IH"[OF True r[symmetric] refl] by simp
      then show ?thesis
        using True False r k by (subst wait_reply.simps) (simp add: delay_settled)
    qed
  qed
qed

lemma send_retry_tx:
  "\<exists>k. k \<le> n \<and> (0 < n \<longrightarrow> 0 < k) \<and>
       members (snd (send_retry cap rnd frame n s)) = members s \<and>
       tx_log (env (snd (send_retry cap rnd frame n s))) = tx_log (env s) @ replicate k frame"
proof (induction n arbitrary: s)
  case 0
  then show ?case by simp
next
  case (Suc n)
  let ?s1 = "flush (write_array frame s)"
  obtain got t where w: "wait_reply cap rnd (millis ?s1) ?s1 = (got, t)"
    by (cases "wait_reply cap rnd (millis ?s1) ?s1")
  have "settled t = settled ?s1"
    using wait_reply_settled[of cap rnd "millis ?s1" ?s1] w by simp
  then have m: "members t = members s" and x: "tx_log (env t) = tx_log (env s) @ [frame]"
    by (simp_all add: settled_def members_def flush_def write_array_def)
  show ?case
  proof (cases got)
    case True
    then have "snd (send_retry cap rnd frame (Suc n) s) = t"
      using w by simp
    then show ?thesis
      using m x by (intro exI[of _ 1]) simp
  next
    case False
    then have e: "send_retry cap rnd frame (Suc n) s = send_retry cap rnd frame n t"
      using w by simp
    obtain k where k: "k \<le> n" "members (snd (send_retry cap rnd frame n t)) = members t"
      "tx_log (env (snd (send_retry cap rnd frame n t))) = tx_log (env t) @ replicate k frame"
      using Suc.IH[of t] by blast
    show ?thesis
      unfolding e using k m x
      by (intro exI[of _ "Suc k"]) (simp add: replicate_append_same)
  qed
qed

lemma silent_tick: "silent e \<Longrightarrow> silent (tick e)"
  by (auto simp: silent_def tick_def split: list.splits dest: list.set_sel(2))

lemma silent_delay_env: "silent e \<Longrightarrow> silent (delay_env n e)"
  by (induction n arbitrary: e) (simp_all add: silent_tick)

lemma wait_reply_silent:
  "silent (env s) \<Longrightarrow>
     fst (wait_reply cap rnd tx_time s) = False \<and> silent (env (snd (wait_reply cap rnd tx_time s)))"
proof (induction cap rnd tx_time s rule: wait_reply.induct)
  case (1 cap rnd tx_time s)
  have r: "read_frame cap rnd s = (False, s)"
    using "1.prems" by (simp add: read_frame_Nil silent_def)
  show ?case
  proof (cases "millis s - tx_time < ucast SHELLY_DIMMER_ACK_TIMEOUT")
    case False
    then show ?thesis using "1.prems" by (simp add: wait_reply.simps)
  next
    case True
    have "silent (env (delay 1 s))"
      using "1.prems" by (simp add: delay_def silent_tick)
    then have "fst (wait_reply cap rnd tx_time (delay 1 s)) = False \<and>
               silent (env (snd (wait_reply cap rnd tx_time (delay 1 s))))"
      using "1.IH"[OF True r[symmetric] refl] by simp
    then show ?thesis
      using True r by (subst (1 2) wait_reply.simps) simp
  qed
qed

lemma send_retry_silent:
  "silent (env s) \<Longrightarrow>
     fst (send_retry cap rnd frame n s) = False \<and>
     members (snd (send_retry cap rnd frame n s)) = members s \<and>
     tx_log (env (snd (send_retry cap rnd frame n s))) = tx_log (env s) @ replicate n frame"
proof (induction n arbitrary: s)
  case 0
  then show ?case by simp
next
  case (Suc n)
  let ?s1 = "flush (write_array frame s)"
  obtain got t where w: "wait_reply cap rnd (millis ?s1) ?s1 = (got, t)"
    by (cases "wait_reply cap rnd (millis ?s1) ?s1")
  have s1: "silent (env ?s1)"
    using Suc.prems by (simp add: silent_def flush_def write_array_def)
  have got: "\<not> got" and st: "silent (env t)"
    using wait_reply_silent[OF s1, of cap rnd "millis ?s1"] w by simp_all
  have "settled t = settled ?s1"
    using wait_reply_settled[of cap rnd "millis ?s1" ?s1] w by simp
  then have m: "members t = members s" and x: "tx_log (env t) = tx_log (env s) @ [frame]"
    by (simp_all add: settled_def members_def flush_def write_array_def)
  have e: "send_retry cap rnd frame (Suc n) s = send_retry cap rnd frame n t"
    using w got by simp
  show ?case
    unfolding e using Suc.IH[OF st] m x by (simp add: replicate_append_same)
qed


lemma send_command_wire:
  assumes "length p \<le> 72" "unat len = length p" "payload = Some p \<or> (payload = None \<and> p = [])"
  shows "send_command cap rnd cmd payload len s =
           send_retry cap rnd (wire_frame (seq s + 1) cmd p) 3 (s\<lparr>seq := seq s + 1\<rparr>)"
proof -
  have "frame_command (replicate SHELLY_DIMMER_PROTO_MAX_FRAME_SIZE 0) cmd payload (unat len) s =
          (wire_frame (seq s + 1) cmd p @ drop (length p + 7) (replicate SHELLY_DIMMER_PROTO_MAX_FRAME_SIZE 0),
           length p + 7, s\<lparr>seq := seq s + 1\<rparr>)"
    using assms frame_command_Some[of p "replicate SHELLY_DIMMER_PROTO_MAX_FRAME_SIZE 0" cmd s]
      frame_command_None[of "replicate SHELLY_DIMMER_PROTO_MAX_FRAME_SIZE 0" cmd s]
    by auto
  then show ?thesis
    by (simp add: send_command_def length_wire_frame)
qed

lemma send_command_members:
  assumes "length p \<le> 72" "unat len = length p" "payload = Some p \<or> (payload = None \<and> p = [])"
  shows "\<exists>k. 1 \<le> k \<and> k \<le> 3 \<and>
           members (snd (send_command cap rnd cmd payload len s)) = members (s\<lparr>seq := seq s + 1\<rparr>) \<and>
           tx_log (env (snd (send_command cap rnd cmd payload len s))) =
             tx_log (env s) @ replicate k (wire_frame (seq s + 1) cmd p)"
proof -
  obtain k where "k \<le> 3" "0 < k"
    "members (snd (send_retry cap rnd (wire_frame (seq s + 1) cmd p) 3 (s\<lparr>seq := seq s + 1\<rparr>))) =
       members (s\<lparr>seq := seq s + 1\<rparr>)"
    "tx_log (env (snd (send_retry cap rnd (wire_frame (seq s + 1) cmd p) 3 (s\<lparr>seq := seq s + 1\<rparr>)))) =
       tx_log (env (s\<lparr>seq := seq s + 1\<rparr>)) @ replicate k (wire_frame (seq s + 1) cmd p)"
    using send_retry_tx[of 3 cap rnd "wire_frame (seq s + 1) cmd p" "s\<lparr>seq := seq s + 1\<rparr>"]
    by auto
  then show ?thesis
    unfolding send_command_wire[OF assms] by (intro exI[of _ k]) simp
qed

lemma send_brightness_tx:
  "\<exists>k. 1 \<le> k \<and> k \<le> 3 \<and>
       members (send_brightness cap rnd b s) = members (s\<lparr>seq := seq s + 1, brightness := b\<rparr>) \<and>
       tx_log (env (send_brightness cap rnd b s)) =
         tx_log (env s) @
           replicate k (wire_frame (seq s + 1) SHELLY_DIMMER_PROTO_CMD_SWITCH
                          [ucast (b AND 0xff), ucast (drop_bit 8 b)])"
proof -
  let ?p = "[ucast (b AND 0xff), ucast (drop_bit 8 b)] :: u8 list"
  obtain sent t where sc: "send_command cap rnd SHELLY_DIMMER_PROTO_CMD_SWITCH (Some ?p)
                             SHELLY_DIMMER_PROTO_CMD_SWITCH_SIZE s = (sent, t)"
    by (cases "send_command cap rnd SHELLY_DIMMER_PROTO_CMD_SWITCH (Some ?p)
                 SHELLY_DIMMER_PROTO_CMD_SWITCH_SIZE s")
  have a: "length ?p \<le> 72" "unat SHELLY_DIMMER_PROTO_CMD_SWITCH_SIZE = length ?p"
    "Some ?p = Some ?p \<or> (Some ?p = None \<and> ?p = [])"
    by simp_all
  obtain k where k: "1 \<le> k" "k \<le> 3" "members t = members (s\<lparr>seq := seq s + 1\<rparr>)"
    "tx_log (env t) = tx_log (env s) @ replicate k (wire_frame (seq s + 1) SHELLY_DIMMER_PROTO_CMD_SWITCH ?p)"
    using send_command_members[OF a, of cap rnd SHELLY_DIMMER_PROTO_CMD_SWITCH s]
    unfolding sc snd_conv by blast
  have sb: "send_brightness cap rnd b s = t\<lparr>brightness := b\<rparr>"
    unfolding send_brightness_def Let_def sc prod.case ..
  have "members (t\<lparr>brightness := b\<rparr>) = members (s\<lparr>seq := seq s + 1, brightness := b\<rparr>)"
    using k(3) by (simp add: members_def)
  moreover have "tx_log (env (t\<lparr>brightness := b\<rparr>)) = tx_log (env t)"
    by simp
  ultimately show ?thesis
    unfolding sb using k(1,2,4) by (intro exI[of _ k]) (simp only: simp_thms)
qed

lemma convert_half: "convert_brightness exact ((fresh 79)\<lparr>state := Some (1 / 2)\<rparr>) (1 / 2) = Some 500"
  by (simp add: convert_brightness_def float_mul_def float_to_uint16_def fresh_def exact_def)

section \<open>Dispatcher and brightness: auxiliary facts\<close>

lemma ucast_u8_u32_nat: "(ucast (b::u8) :: u32) = of_nat (unat b)"
  by (simp only: of_nat_unat)

lemma bit_ucast_u8: "bit (ucast (b::u8) :: u32) n \<Longrightarrow> n < 8"
  by (auto simp: bit_simps dest: bit_imp_le_length)

lemma le32_word:
  "(push_bit 24 (ucast b3) OR push_bit 16 (ucast b2) OR push_bit 8 (ucast b1) OR ucast b0 :: u32)
     = of_nat (le32 b0 b1 b2 b3)"
proof -
  have 1: "push_bit 8 (ucast b1) OR ucast b0 = (push_bit 8 (ucast b1) + ucast b0 :: u32)"
    by (rule disjunctive_add[symmetric]) (auto simp: bit_simps dest: bit_imp_le_length)
  have 2: "push_bit 16 (ucast b2) OR (push_bit 8 (ucast b1) OR ucast b0)
             = (push_bit 16 (ucast b2) + (push_bit 8 (ucast b1) OR ucast b0) :: u32)"
    by (rule disjunctive_add[symmetric]) (auto simp: bit_simps dest: bit_imp_le_length)
  have 3: "push_bit 24 (ucast b3) OR (push_bit 16 (ucast b2) OR (push_bit 8 (ucast b1) OR ucast b0))
             = (push_bit 24 (ucast b3) + (push_bit 16 (ucast b2) OR (push_bit 8 (ucast b1) OR ucast b0)) :: u32)"
    by (rule disjunctive_add[symmetric]) (auto simp: bit_simps dest: bit_imp_le_length)
  have "(push_bit 24 (ucast b3) OR push_bit 16 (ucast b2) OR push_bit 8 (ucast b1) OR ucast b0 :: u32)
          = push_bit 24 (ucast b3) + (push_bit 16 (ucast b2) + (push_bit 8 (ucast b1) + ucast b0))"
    by (subst 3, subst 2, subst 1) (rule refl)
  then show ?thesis
    by (simp add: push_bit_eq_mult le32_def)
qed

lemma le32_bound: "le32 b0 b1 b2 b3 < 2 ^ 32"
proof -
  have "unat b0 < 256" "unat b1 < 256" "unat b2 < 256" "unat b3 < 256"
    using unsigned_less[of b0] unsigned_less[of b1] unsigned_less[of b2] unsigned_less[of b3]
    by simp_all
  then show ?thesis by (simp add: le32_def)
qed

lemma decode_step:
  fixes b0 b1 b2 b3 :: u8
  defines "w \<equiv> (push_bit 24 (ucast b3) OR push_bit 16 (ucast b2) OR push_bit 8 (ucast b1) OR ucast b0 :: u32)"
  shows "(if w > 0 then float_div rnd k (float_of_u32 rnd w) else 0) = decoded rnd k (le32 b0 b1 b2 b3)"
proof -
  have w: "w = of_nat (le32 b0 b1 b2 b3)"
    unfolding w_def by (rule le32_word)
  have u: "unat w = le32 b0 b1 b2 b3"
    unfolding w using le32_bound[of b0 b1 b2 b3] by (simp add: unat_of_nat)
  have "w > 0 \<longleftrightarrow> le32 b0 b1 b2 b3 \<noteq> 0"
    using u by (simp add: word_less_nat_alt)
  then show ?thesis
    using u by (simp add: decoded_def float_of_u32_def)
qed

lemma uint_min_1000: "uint (min (a::u16) 1000) = min (uint a) 1000"
  by (simp add: min_def word_le_def)

lemma float_to_uint16_nonneg:
  "0 \<le> x \<Longrightarrow> x < 65536 \<Longrightarrow> float_to_uint16 x = Some (of_int \<lfloor>x\<rfloor>)"
  by (simp add: float_to_uint16_def)

lemma uint_of_floor_plus:
  fixes m :: u16
  assumes "0 \<le> k" "k + uint m < 65536"
  shows "uint ((of_int k :: u16) + m) = k + uint m"
proof -
  have m0: "uint m \<ge> 0" by simp
  then have "k < 65536" using assms by linarith
  then have "uint (of_int k :: u16) = k"
    using assms(1) by (simp add: uint_word_of_int)
  then show ?thesis
    using assms by (simp add: uint_word_ariths take_bit_int_eq_self)
qed

section \<open>Initialisation: auxiliary facts\<close>

lemma clear_rx_standing: "standing (clear_rx s) = standing s"
proof (induction s rule: clear_rx.induct)
  case (1 s)
  show ?case
  proof (cases "available s")
    case True
    then have "clear_rx s = clear_rx (snd (read s))" by (subst clear_rx.simps) simp
    then show ?thesis using "1.IH"[OF True] by (simp add: read_def standing_def)
  next
    case False
    then show ?thesis by (subst clear_rx.simps) simp
  qed
qed

lemma reset_standing: "standing (reset b s) = standing s"
proof -
  have d: "standing (delay n t) = standing t" for n t
    by (simp add: delay_def standing_def)
  have "standing (reset b s) = standing (clear_rx (delay 50 (s\<lparr>pin_boot0 := b, pin_nrst := False\<rparr>)))"
    unfolding reset_def Let_def d by (simp add: standing_def)
  then show ?thesis
    unfolding clear_rx_standing d by (simp add: standing_def)
qed

lemma reset_normal_boot_standing: "standing (reset_normal_boot s) = standing s"
  by (simp add: reset_normal_boot_def reset_standing flush_def) (simp add: standing_def)

lemma reset_dfu_boot_standing: "standing (reset_dfu_boot s) = standing s"
  by (simp add: reset_dfu_boot_def reset_standing flush_def) (simp add: standing_def)

lemma members_standing: "members t = members (s\<lparr>seq := x\<rparr>) \<Longrightarrow> standing t = standing s"
  by (simp add: members_def standing_def)

lemma send_command_standing:
  assumes "length p \<le> 72" "unat len = length p" "payload = Some p \<or> (payload = None \<and> p = [])"
  shows "standing (snd (send_command cap rnd cmd payload len s)) = standing s"
  using send_command_members[OF assms, of cap rnd cmd s] members_standing by blast

lemma check_version_standing: "standing (check_version cap rnd s) = standing s"
  unfolding check_version_def
  using send_command_standing[of "[]" 0 None cap rnd SHELLY_DIMMER_PROTO_CMD_VERSION "reset_normal_boot s"]
  by (simp add: reset_normal_boot_standing)

lemma standing_steady: "standing t = standing s \<Longrightarrow> steady t = steady s"
  by (simp add: standing_def steady_def flashes_def)

lemma close_stm32_steady: "steady (close_stm32 lib s) = steady s"
  by (simp add: close_stm32_def steady_def flashes_def)

lemma write_chunks_steady:
  "steady (snd (write_chunks lib fw fw_len fl_end addr p offset s)) = steady s"
proof (induction lib fw fw_len fl_end addr p offset s rule: write_chunks.induct)
  case (1 lib fw fw_len fl_end addr p offset s)
  let ?left = "fl_end - addr"
  let ?len0 = "if ?left < 256 then ?left else 256"
  let ?len = "if fw_len - offset < ?len0 then fw_len - offset else ?len0"
  let ?chunk = "take (unat ?len) (take 256 (drop p fw))"
  obtain ok e where w: "stm32_write_memory lib addr ?chunk (env s) = (ok, e)"
    by (cases "stm32_write_memory lib addr ?chunk (env s)")
  let ?t = "s\<lparr>env := e, stm32_log := stm32_log s @ [Stm32_write_memory addr ?chunk]\<rparr>"
  have st: "steady ?t = steady s" by (simp add: steady_def flashes_def)
  show ?case
  proof (cases "addr < fl_end \<and> offset < fw_len \<and> ?len \<noteq> 0")
    case False
    then show ?thesis
      by (subst write_chunks.simps) (auto simp: Let_def)
  next
    case True
    then have c: "addr < fl_end \<and> offset < fw_len" and nz: "?len \<noteq> 0" by blast+
    show ?thesis
    proof (cases ok)
      case False
      have "write_chunks lib fw fw_len fl_end addr p offset s = (False, close_stm32 lib ?t)"
        by (subst write_chunks.simps) (use c nz w False in \<open>simp add: Let_def\<close>)
      then show ?thesis using st by (simp only: snd_conv close_stm32_steady)
    next
      case ok: True
      have "write_chunks lib fw fw_len fl_end addr p offset s =
              write_chunks lib fw fw_len fl_end (addr + ?len) (p + 256) (offset + ?len) ?t"
        by (subst write_chunks.simps) (use c nz w ok in \<open>simp add: Let_def\<close>)
      moreover have "steady (snd (write_chunks lib fw fw_len fl_end (addr + ?len) (p + 256) (offset + ?len) ?t))
                       = steady ?t"
        by (rule "1.IH"[OF c refl refl refl nz refl refl w[symmetric] refl]) (simp add: ok)
      ultimately show ?thesis using st by (simp only:)
    qed
  qed
qed

lemma upgrade_firmware_steady:
  "ready (snd (upgrade_firmware lib img s)) = ready s \<and>
   failed (snd (upgrade_firmware lib img s)) = failed s \<and>
   poll_interval (snd (upgrade_firmware lib img s)) = poll_interval s \<and>
   flashes (snd (upgrade_firmware lib img s)) = flashes s + 1"
proof -
  let ?s1 = "reset_dfu_boot s"
  obtain dev e1 where i: "stm32_init lib (env ?s1) = (dev, e1)"
    by (cases "stm32_init lib (env ?s1)")
  let ?s2 = "?s1\<lparr>env := e1, stm32_log := stm32_log ?s1 @ [Stm32_init]\<rparr>"
  have s1: "standing ?s1 = standing s" by (rule reset_dfu_boot_standing)
  have s2: "steady ?s2 = (ready s, failed s, poll_interval s, flashes s + 1)"
    using s1 by (simp add: steady_def standing_def flashes_def)
  have goal: "steady (snd (upgrade_firmware lib img s)) = steady ?s2"
  proof (cases dev)
    case None
    then have "upgrade_firmware lib img s = (False, ?s2)"
      using i by (simp add: upgrade_firmware_def Let_def)
    then show ?thesis by simp
  next
    case (Some fl_start)
    obtain erased e2 where er: "stm32_erase_memory lib (env ?s2) = (erased, e2)"
      by (cases "stm32_erase_memory lib (env ?s2)")
    let ?s3 = "?s2\<lparr>env := e2, stm32_log := stm32_log ?s2 @ [Stm32_erase_memory]\<rparr>"
    have s3: "steady ?s3 = steady ?s2" by (simp add: steady_def flashes_def)
    let ?fw = "SHD_FIRMWARE_DATA img"
    obtain written s4 where wc:
      "write_chunks lib ?fw (of_nat (length ?fw)) (fl_start + of_nat (length ?fw)) fl_start 0 0 ?s3 = (written, s4)"
      by (cases "write_chunks lib ?fw (of_nat (length ?fw)) (fl_start + of_nat (length ?fw)) fl_start 0 0 ?s3")
    have s4: "steady s4 = steady ?s3"
      using write_chunks_steady[of lib ?fw "of_nat (length ?fw)" "fl_start + of_nat (length ?fw)" fl_start 0 0 ?s3]
      unfolding wc by simp
    have u: "upgrade_firmware lib img s =
            (if \<not> erased then (False, close_stm32 lib ?s3)
             else if \<not> written then (False, s4) else (True, close_stm32 lib s4))"
      unfolding upgrade_firmware_def Let_def i prod.case Some option.case er wc by simp
    show ?thesis
      unfolding u using s3 s4 by (simp add: close_stm32_steady)
  qed
  show ?thesis
    using goal s2 by (simp add: steady_def)
qed

lemma setup_loop_1:
  "setup_loop lib img cap rnd (Suc 0) s =
     (if version_mismatch img (check_version cap rnd s)
      then (False, mark_failed (check_version cap rnd s))
      else (True, check_version cap rnd s))"
  by (subst setup_loop.simps)
     (simp add: Let_def check_version_def version_mismatch_def split: prod.splits)

lemma setup_loop_0:
  "setup_loop lib img cap rnd 0 s =
     (if version_mismatch img (check_version cap rnd s) then
        (if \<not> fst (upgrade_firmware lib img (check_version cap rnd s))
         then (False, mark_failed (snd (upgrade_firmware lib img (check_version cap rnd s))))
         else setup_loop lib img cap rnd (Suc 0) (snd (upgrade_firmware lib img (check_version cap rnd s))))
      else (True, check_version cap rnd s))"
  by (subst setup_loop.simps)
     (simp add: Let_def check_version_def version_mismatch_def split: prod.splits)

lemma mark_failed_steady:
  "ready (mark_failed s) = ready s \<and> failed (mark_failed s) \<and>
   poll_interval (mark_failed s) = poll_interval s \<and> flashes (mark_failed s) = flashes s"
  by (simp add: mark_failed_def flashes_def)

lemma check_version_steady:
  "ready (check_version cap rnd s) = ready s \<and> failed (check_version cap rnd s) = failed s \<and>
   poll_interval (check_version cap rnd s) = poll_interval s \<and>
   flashes (check_version cap rnd s) = flashes s"
  using check_version_standing[of cap rnd s] by (simp add: standing_def flashes_def)

lemma setup_loop_flashes: "flashes (snd (setup_loop lib img cap rnd 0 s)) \<le> flashes s + 1"
  using upgrade_firmware_steady[of lib img "check_version cap rnd s"]
    check_version_steady[of cap rnd s]
    check_version_steady[of cap rnd "snd (upgrade_firmware lib img (check_version cap rnd s))"]
  by (simp add: setup_loop_0 setup_loop_1 mark_failed_steady)

lemma send_brightness_standing: "standing (send_brightness cap rnd b s) = standing s"
  using send_brightness_tx[of cap rnd b s] by (auto simp: members_def standing_def)

lemma send_settings_standing:
  "send_settings cap rnd s = Some t \<Longrightarrow> standing t = standing s"
proof -
  assume a: "send_settings cap rnd s = Some t"
  then obtain b where b: "convert_brightness rnd s (case state s of None \<Rightarrow> 0 | Some v \<Rightarrow> v) = Some b"
    by (auto simp: send_settings_def Let_def split: option.splits)
  let ?p = "[ucast (b AND 0xff), ucast (drop_bit 8 b),
             (if leading_edge s then 0x01 else 0x02), 0x00,
             ucast (min 100 (fade_rate s) AND 0xff), ucast (drop_bit 8 (min 100 (fade_rate s))),
             ucast (warmup_brightness s AND 0xff), ucast (drop_bit 8 (warmup_brightness s)),
             ucast (warmup_time s AND 0xff), ucast (drop_bit 8 (warmup_time s))] :: u8 list"
  let ?u = "snd (send_command cap rnd SHELLY_DIMMER_PROTO_CMD_SETTINGS (Some ?p)
                   SHELLY_DIMMER_PROTO_CMD_SETTINGS_SIZE s)"
  have t: "t = send_brightness cap rnd b ?u"
    using a b by (auto simp: send_settings_def Let_def split: prod.splits)
  have "standing ?u = standing s"
    by (rule send_command_standing[of ?p]) simp_all
  then show ?thesis
    unfolding t by (simp add: send_brightness_standing)
qed

section \<open>The claims\<close>

subsection \<open>Frame codec and stream parser\<close>

text \<open>
  C2. For every command id, every value of the sequence counter and every payload of
  0 to 72 bytes (handed over as a pointer, or as \<^verbatim>\<open>nullptr\<close> when it is empty), the
  bytes that \<open>frame_command\<close> writes, fed one at a time to the parser from cursor 0,
  are each classified as "need more data" (1) except the last, which is classified as
  "frame complete" (0); afterwards the parse buffer holds the sequence byte that was
  sent (the incremented counter), the command id, the payload length and the payload.
  The parse buffer is assumed to hold the largest frame the codec produces.
\<close>

theorem frame_roundtrip:
  assumes "SHELLY_DIMMER_PROTO_MAX_FRAME_SIZE \<le> cap" "length (buffer s) = cap" "buffer_pos s = 0"
    and "length p \<le> 72" "length data = SHELLY_DIMMER_PROTO_MAX_FRAME_SIZE"
    and "payload = Some p \<or> (payload = None \<and> p = [])"
  shows "case frame_command data cmd payload (length p) s of
           (frame, frame_len, t) \<Rightarrow>
             (case feed cap (take frame_len frame) t of
                (rs, u) \<Rightarrow>
                  rs = replicate (frame_len - 1) 1 @ [0] \<and>
                  seq t = seq s + 1 \<and>
                  buffer u ! 1 = seq t \<and>
                  buffer u ! 2 = cmd \<and>
                  unat (buffer u ! 3) = length p \<and>
                  take (length p) (drop 4 (buffer u)) = p)"
proof -
  let ?F = "wire_frame (seq s + 1) cmd p"
  let ?s1 = "s\<lparr>seq := seq s + 1\<rparr>"
  have fc: "frame_command data cmd payload (length p) s =
              (?F @ drop (length p + 7) data, length p + 7, ?s1)"
    using assms(4,5,6) frame_command_Some[of p data cmd s] frame_command_None[of data cmd s]
    by auto
  have tk: "take (length p + 7) (?F @ drop (length p + 7) data) = ?F"
    by (simp add: length_wire_frame)
  have fd: "feed cap ?F ?s1 =
              (replicate (length p + 6) 1 @ [0],
               ?s1\<lparr>buffer := ?F @ drop (length p + 7) (buffer ?s1), buffer_pos := 0\<rparr>)"
    using assms(1,2,3,4) by (intro feed_wire_frame) simp_all
  show ?thesis
    using assms(4) unfolding fc prod.case tk fd by (simp add: wire_frame_Cons unat_u8_of_nat)
qed

theorem frame_roundtrip_witness:
  "SHELLY_DIMMER_PROTO_MAX_FRAME_SIZE \<le> (79::nat) \<and>
   length (buffer ((fresh 79)\<lparr>seq := 4\<rparr>)) = 79 \<and> buffer_pos ((fresh 79)\<lparr>seq := 4\<rparr>) = 0 \<and>
   length [0xE8, 0x03 :: u8] \<le> 72 \<and>
   length (replicate 79 0 :: u8 list) = SHELLY_DIMMER_PROTO_MAX_FRAME_SIZE \<and>
   (case frame_command (replicate 79 0) 0x01 (Some [0xE8, 0x03]) (length [0xE8, 0x03 :: u8])
           ((fresh 79)\<lparr>seq := 4\<rparr>) of
      (frame, frame_len, t) \<Rightarrow>
        (case feed 79 (take frame_len frame) t of
           (rs, u) \<Rightarrow>
             rs = replicate (frame_len - 1) 1 @ [0] \<and>
             seq t = seq ((fresh 79)\<lparr>seq := 4\<rparr>) + 1 \<and>
             buffer u ! 1 = seq t \<and>
             buffer u ! 2 = 0x01 \<and>
             unat (buffer u ! 3) = length [0xE8, 0x03 :: u8] \<and>
             take (length [0xE8, 0x03 :: u8]) (drop 4 (buffer u)) = [0xE8, 0x03])) \<and>
   take 9 (fst (frame_command (replicate 79 0) 0x01 (Some [0xE8, 0x03]) 2 ((fresh 79)\<lparr>seq := 4\<rparr>)))
     = [0x01, 0x05, 0x01, 0x02, 0xE8, 0x03, 0x00, 0xF3, 0x04]"
proof -
  have a: "SHELLY_DIMMER_PROTO_MAX_FRAME_SIZE \<le> (79::nat)"
    "length (buffer ((fresh 79)\<lparr>seq := 4\<rparr>)) = 79" "buffer_pos ((fresh 79)\<lparr>seq := 4\<rparr>) = 0"
    "length [0xE8, 0x03 :: u8] \<le> 72"
    "length (replicate 79 0 :: u8 list) = SHELLY_DIMMER_PROTO_MAX_FRAME_SIZE"
    "Some [0xE8, 0x03 :: u8] = Some [0xE8, 0x03] \<or> (Some [0xE8, 0x03 :: u8] = None \<and> [0xE8, 0x03 :: u8] = [])"
    by (simp_all add: fresh_def)
  have b: "take 9 (fst (frame_command (replicate 79 0) 0x01 (Some [0xE8, 0x03]) 2 ((fresh 79)\<lparr>seq := 4\<rparr>)))
     = [0x01, 0x05, 0x01, 0x02, 0xE8, 0x03, 0x00, 0xF3, 0x04]"
    by code_simp
  show ?thesis
    by (intro conjI a(1-5) b frame_roundtrip[OF a, of "0x01"])
qed

text \<open>
  C3. When the frame size \<open>4 + payload_len + 3\<close> that a length byte declares exceeds the
  capacity of the parse buffer, the parser never classifies a byte as "frame complete"
  while that length byte is in the header; fed from cursor 0, the four header bytes are
  accepted and the very next byte is classified as a failure, whatever it is, which
  resets the cursor. That is the fifth byte of the stream, before the declared payload
  has been consumed.
\<close>

theorem oversized_frame_rejected:
  assumes "SHELLY_DIMMER_PROTO_MAX_FRAME_SIZE \<le> cap" "cap < 4 + unat len + 3"
  shows "(buffer s ! 3 = len \<longrightarrow> handle_byte cap s c \<noteq> 0) \<and>
         (length (buffer t) = cap \<and> buffer_pos t = 0 \<longrightarrow>
            (case feed cap [SHELLY_DIMMER_PROTO_START_BYTE, sq, cmd, len, c] t of
               (rs, u) \<Rightarrow> rs = [1, 1, 1, 1, - 1] \<and> buffer_pos u = 0 \<and> length rs < 4 + unat len))"
proof (intro conjI impI)
  assume "buffer s ! 3 = len"
  then show "handle_byte cap s c \<noteq> 0"
    using assms(2) by (simp add: handle_byte_def Let_def)
next
  assume a: "length (buffer t) = cap \<and> buffer_pos t = 0"
  then have "4 < length (buffer t)" using assms(1) by simp
  then show "case feed cap [SHELLY_DIMMER_PROTO_START_BYTE, sq, cmd, len, c] t of
               (rs, u) \<Rightarrow> rs = [1, 1, 1, 1, - 1] \<and> buffer_pos u = 0 \<and> length rs < 4 + unat len"
    using a assms by (simp add: parse_byte_def handle_byte_def Let_def)
qed

theorem oversized_frame_rejected_witness:
  "SHELLY_DIMMER_PROTO_MAX_FRAME_SIZE \<le> (79::nat) \<and> (79::nat) < 4 + unat (73::u8) + 3 \<and>
   handle_byte 79 ((fresh 79)\<lparr>buffer := [0x01, 7, 0x10, 73, 0, 0, 0], buffer_pos := 6\<rparr>) 0 \<noteq> 0 \<and>
   (case feed 79 [SHELLY_DIMMER_PROTO_START_BYTE, 7, 0x10, 73, 0] (fresh 79) of
      (rs, u) \<Rightarrow> rs = [1, 1, 1, 1, - 1] \<and> buffer_pos u = 0 \<and> length rs < 4 + unat (73::u8))"
proof -
  have a: "SHELLY_DIMMER_PROTO_MAX_FRAME_SIZE \<le> (79::nat)" by simp
  have b: "(79::nat) < 4 + unat (73::u8) + 3" by simp
  have c: "buffer ((fresh 79)\<lparr>buffer := [0x01, 7, 0x10, 73, 0, 0, 0], buffer_pos := 6\<rparr>) ! 3 = 73"
    by simp
  have d: "length (buffer (fresh 79)) = 79 \<and> buffer_pos (fresh 79) = 0"
    by (simp add: fresh_def)
  note T = oversized_frame_rejected[OF a b,
        where s = "(fresh 79)\<lparr>buffer := [0x01, 7, 0x10, 73, 0, 0, 0], buffer_pos := 6\<rparr>"
          and c = 0 and t = "fresh 79" and sq = 7 and cmd = "0x10"]
  show ?thesis
    by (intro conjI a b T[THEN conjunct1, THEN mp, OF c] T[THEN conjunct2, THEN mp, OF d])
qed

text \<open>
  C4. Whenever a byte is classified as "frame complete" or as a failure the cursor is
  0 afterwards, and it is 0 whenever \<open>read_frame\<close> reports a frame. After any failure,
  whatever bytes \<open>g\<close> were fed before it and whatever state the parser started from
  (so whatever those bytes left in the buffer), feeding the bytes of a well-formed frame
  classifies all of them as "need more data" except the last, which completes the frame.
  A well-formed frame fits the buffer and, the cursor being a \<^verbatim>\<open>uint8_t\<close>, has at most
  256 bytes.
\<close>

theorem parser_recovers_after_error:
  assumes "length p \<le> 249" "length p + 7 \<le> cap" "length (buffer s) = cap"
  shows "(parse_byte cap c s = (r, t) \<and> (r = 0 \<or> r = - 1) \<longrightarrow> buffer_pos t = 0) \<and>
         (read_frame cap rnd s = (True, u) \<longrightarrow> buffer_pos u = 0) \<and>
         (feed cap g s = (rs, v) \<and> rs \<noteq> [] \<and> last rs = - 1 \<longrightarrow>
            feed cap (wire_frame sq cmd p) v =
              (replicate (length p + 6) 1 @ [0],
               v\<lparr>buffer := wire_frame sq cmd p @ drop (length p + 7) (buffer v),
                  buffer_pos := 0\<rparr>))"
proof (intro conjI impI)
  assume "parse_byte cap c s = (r, t) \<and> (r = 0 \<or> r = - 1)"
  then show "buffer_pos t = 0" using parse_byte_reset by blast
next
  assume "read_frame cap rnd s = (True, u)"
  then show "buffer_pos u = 0" by (rule read_frame_True_reset)
next
  assume a: "feed cap g s = (rs, v) \<and> rs \<noteq> [] \<and> last rs = - 1"
  then have "buffer_pos v = 0" using feed_last_reset[of cap g s rs v] by simp
  moreover have "length (buffer v) = cap"
    using feed_length[of cap g s] a assms(3) by simp
  ultimately show "feed cap (wire_frame sq cmd p) v =
              (replicate (length p + 6) 1 @ [0],
               v\<lparr>buffer := wire_frame sq cmd p @ drop (length p + 7) (buffer v),
                  buffer_pos := 0\<rparr>)"
    using feed_wire_frame[OF assms(1,2)] by simp
qed

theorem parser_recovers_after_error_witness:
  "length [0xE8, 0x03 :: u8] \<le> 249 \<and> length [0xE8, 0x03 :: u8] + 7 \<le> 79 \<and>
   length (buffer (fresh 79)) = 79 \<and>
   fst (feed 79 [0x01, 0x05, 0x55, 0x00, 0x00, 0x00, 0x00] (fresh 79)) = [1, 1, 1, 1, 1, - 1, - 1] \<and>
   buffer_pos (snd (parse_byte 79 0x02 (fresh 79))) = 0 \<and>
   fst (feed 79 (wire_frame 5 1 [0xE8, 0x03])
          (snd (feed 79 [0x01, 0x05, 0x55, 0x00, 0x00, 0x00, 0x00] (fresh 79)))) =
     replicate (length [0xE8, 0x03 :: u8] + 6) 1 @ [0]"
proof -
  let ?g = "[0x01, 0x05, 0x55, 0x00, 0x00, 0x00, 0x00] :: u8 list"
  have a: "length [0xE8, 0x03 :: u8] \<le> 249" "length [0xE8, 0x03 :: u8] + 7 \<le> 79"
    "length (buffer (fresh 79)) = 79"
    by (simp_all add: fresh_def)
  have g: "fst (feed 79 ?g (fresh 79)) = [1, 1, 1, 1, 1, - 1, - 1]"
    by code_simp
  have e: "fst (parse_byte 79 0x02 (fresh 79)) = - 1"
    by code_simp
  note T = parser_recovers_after_error[OF a, where c = "0x02" and r = "- 1"
      and t = "snd (parse_byte 79 0x02 (fresh 79))"
      and g = ?g and rs = "fst (feed 79 ?g (fresh 79))" and v = "snd (feed 79 ?g (fresh 79))"
      and sq = 5 and cmd = 1]
  have pc: "parse_byte 79 0x02 (fresh 79) = (- 1, snd (parse_byte 79 0x02 (fresh 79))) \<and>
            (- 1 = (0::int) \<or> - 1 = (- 1::int))"
    using e by (simp add: prod_eq_iff)
  have "buffer_pos (snd (parse_byte 79 0x02 (fresh 79))) = 0"
    by (rule T[THEN conjunct1, THEN mp, OF pc])
  moreover have "feed 79 (wire_frame 5 1 [0xE8, 0x03]) (snd (feed 79 ?g (fresh 79))) =
      (replicate (length [0xE8, 0x03 :: u8] + 6) 1 @ [0],
       (snd (feed 79 ?g (fresh 79)))\<lparr>buffer := wire_frame 5 1 [0xE8, 0x03] @
          drop (length [0xE8, 0x03 :: u8] + 7) (buffer (snd (feed 79 ?g (fresh 79)))),
          buffer_pos := 0\<rparr>)"
    using T g by simp
  ultimately show ?thesis
    using a g by simp
qed

subsection \<open>Command transceiver\<close>

text \<open>
  C1. The claim: \<open>send_command\<close> returns success only after a completed frame whose
  sequence byte equals the sequence number just sent; a completed frame with another
  sequence byte is discarded and the wait goes on. The source does otherwise:
  \<^verbatim>\<open>read_frame_\<close> drops the value that \<^verbatim>\<open>handle_frame_\<close> returns and reports every
  completed frame. In the run below the counter stands at 4, the command goes out once
  with sequence 5, the peer delivers a frame with sequence 9 during the first
  millisecond, and \<open>send_command\<close> returns true at once, with that frame in the buffer.
\<close>

theorem stale_reply_ends_wait:
  "(case send_command 79 exact SHELLY_DIMMER_PROTO_CMD_SWITCH (Some [0xE8, 0x03]) 2 stale_reply of
      (sent, t) \<Rightarrow>
        sent \<and> seq t = 5 \<and> buffer t ! 1 = 9 \<and>
        tx_log (env t) = [[0x01, 0x05, 0x01, 0x02, 0xE8, 0x03, 0x00, 0xF3, 0x04]] \<and>
        clock (env t) = 1)"
  by code_simp

text \<open>
  C6. On a transport that never makes a byte available, \<open>send_command\<close> writes the
  frame that \<open>frame_command\<close> built three times, nothing else, and returns false; the
  sequence counter was incremented once, so the three frames are the same.
\<close>

theorem send_command_silent:
  assumes "silent (env s)"
    and "length p \<le> 72" "unat len = length p" "payload = Some p \<or> (payload = None \<and> p = [])"
  shows "case frame_command (replicate SHELLY_DIMMER_PROTO_MAX_FRAME_SIZE 0) cmd payload (unat len) s of
           (frame, frame_len, u) \<Rightarrow>
             (case send_command cap rnd cmd payload len s of
                (sent, t) \<Rightarrow>
                  \<not> sent \<and>
                  tx_log (env t) =
                    tx_log (env s) @ [take frame_len frame, take frame_len frame, take frame_len frame] \<and>
                  take frame_len frame = wire_frame (seq s + 1) cmd p \<and>
                  seq t = seq s + 1)"
proof -
  let ?F = "wire_frame (seq s + 1) cmd p"
  let ?s1 = "s\<lparr>seq := seq s + 1\<rparr>"
  have fc: "frame_command (replicate SHELLY_DIMMER_PROTO_MAX_FRAME_SIZE 0) cmd payload (unat len) s =
          (?F @ drop (length p + 7) (replicate SHELLY_DIMMER_PROTO_MAX_FRAME_SIZE 0),
           length p + 7, ?s1)"
    using assms frame_command_Some[of p "replicate SHELLY_DIMMER_PROTO_MAX_FRAME_SIZE 0" cmd s]
      frame_command_None[of "replicate SHELLY_DIMMER_PROTO_MAX_FRAME_SIZE 0" cmd s]
    by auto
  have sc: "send_command cap rnd cmd payload len s = send_retry cap rnd ?F 3 ?s1"
    using assms(2-4) by (rule send_command_wire)
  obtain sent t where st: "send_retry cap rnd ?F 3 ?s1 = (sent, t)"
    by (cases "send_retry cap rnd ?F 3 ?s1")
  have "silent (env ?s1)" using assms(1) by simp
  from send_retry_silent[OF this, of cap rnd ?F 3]
  have r: "\<not> sent" "members t = members ?s1"
    "tx_log (env t) = tx_log (env s) @ replicate 3 ?F"
    unfolding st by simp_all
  have "seq t = seq s + 1"
    using r(2) by (simp add: members_def)
  moreover have "replicate 3 ?F = [?F, ?F, ?F]"
    by (simp add: numeral_3_eq_3)
  ultimately show ?thesis
    unfolding fc sc prod.case st using r(1,3)
    by (simp add: length_wire_frame)
qed

theorem send_command_silent_witness:
  "silent (env (fresh 79)) \<and> length ([] :: u8 list) \<le> 72 \<and> unat (0 :: u8) = length ([] :: u8 list) \<and>
   (case frame_command (replicate SHELLY_DIMMER_PROTO_MAX_FRAME_SIZE 0)
           SHELLY_DIMMER_PROTO_CMD_VERSION None (unat (0 :: u8)) (fresh 79) of
      (frame, frame_len, u) \<Rightarrow>
        (case send_command 79 exact SHELLY_DIMMER_PROTO_CMD_VERSION None 0 (fresh 79) of
           (sent, t) \<Rightarrow>
             \<not> sent \<and>
             tx_log (env t) =
               tx_log (env (fresh 79)) @ [take frame_len frame, take frame_len frame, take frame_len frame] \<and>
             take frame_len frame = wire_frame (seq (fresh 79) + 1) SHELLY_DIMMER_PROTO_CMD_VERSION [] \<and>
             seq t = seq (fresh 79) + 1)) \<and>
   wire_frame (seq (fresh 79) + 1) SHELLY_DIMMER_PROTO_CMD_VERSION [] = [0x01, 0x01, 0x11, 0x00, 0x00, 0x12, 0x04]"
proof -
  have a: "silent (env (fresh 79))" "length ([] :: u8 list) \<le> 72"
    "unat (0 :: u8) = length ([] :: u8 list)"
    by (simp_all add: fresh_def quiet_def silent_def)
  have b: "(None :: u8 list option) = Some [] \<or> ((None :: u8 list option) = None \<and> ([] :: u8 list) = [])"
    by simp
  have c: "wire_frame (seq (fresh 79) + 1) SHELLY_DIMMER_PROTO_CMD_VERSION [] =
             [0x01, 0x01, 0x11, 0x00, 0x00, 0x12, 0x04]"
    by (simp add: fresh_def wire_frame_def wire_checksum_def)
  show ?thesis
    by (intro conjI a c send_command_silent[OF a b])
qed

text \<open>
  C7. \<open>send_settings\<close> transmits two commands and nothing else: the settings command,
  with the sequence number after the current one, and then the switch command, with the
  next sequence number. Each is written at least once and at most three times (the
  retries of \<open>send_command\<close>). The first two payload bytes of both are the low and the
  high byte of the same converted brightness \<open>b\<close>, which is also what is stored as the
  last brightness sent. The hypothesis says that the conversion of the brightness is
  defined.
\<close>

theorem send_settings_two_commands:
  assumes "convert_brightness rnd s (case state s of None \<Rightarrow> 0 | Some v \<Rightarrow> v) = Some b"
  shows "\<exists>t k1 k2.
           send_settings cap rnd s = Some t \<and> 1 \<le> k1 \<and> k1 \<le> 3 \<and> 1 \<le> k2 \<and> k2 \<le> 3 \<and>
           tx_log (env t) =
             tx_log (env s) @
             replicate k1
               (wire_frame (seq s + 1) SHELLY_DIMMER_PROTO_CMD_SETTINGS
                  [ucast (b AND 0xff), ucast (drop_bit 8 b),
                   (if leading_edge s then 0x01 else 0x02), 0x00,
                   ucast (min 100 (fade_rate s) AND 0xff), ucast (drop_bit 8 (min 100 (fade_rate s))),
                   ucast (warmup_brightness s AND 0xff), ucast (drop_bit 8 (warmup_brightness s)),
                   ucast (warmup_time s AND 0xff), ucast (drop_bit 8 (warmup_time s))]) @
             replicate k2
               (wire_frame (seq s + 2) SHELLY_DIMMER_PROTO_CMD_SWITCH
                  [ucast (b AND 0xff), ucast (drop_bit 8 b)]) \<and>
           seq t = seq s + 2 \<and> brightness t = b \<and>
           (push_bit 8 (ucast (ucast (drop_bit 8 b) :: u8)) OR ucast (ucast (b AND 0xff) :: u8) :: u16) = b"
proof -
  let ?p = "[ucast (b AND 0xff), ucast (drop_bit 8 b),
             (if leading_edge s then 0x01 else 0x02), 0x00,
             ucast (min 100 (fade_rate s) AND 0xff), ucast (drop_bit 8 (min 100 (fade_rate s))),
             ucast (warmup_brightness s AND 0xff), ucast (drop_bit 8 (warmup_brightness s)),
             ucast (warmup_time s AND 0xff), ucast (drop_bit 8 (warmup_time s))] :: u8 list"
  obtain sent u where sc: "send_command cap rnd SHELLY_DIMMER_PROTO_CMD_SETTINGS (Some ?p)
                             SHELLY_DIMMER_PROTO_CMD_SETTINGS_SIZE s = (sent, u)"
    by (cases "send_command cap rnd SHELLY_DIMMER_PROTO_CMD_SETTINGS (Some ?p)
                 SHELLY_DIMMER_PROTO_CMD_SETTINGS_SIZE s")
  obtain k1 where k1: "1 \<le> k1" "k1 \<le> 3" "members u = members (s\<lparr>seq := seq s + 1\<rparr>)"
    "tx_log (env u) = tx_log (env s) @ replicate k1 (wire_frame (seq s + 1) SHELLY_DIMMER_PROTO_CMD_SETTINGS ?p)"
    using send_command_members[of ?p SHELLY_DIMMER_PROTO_CMD_SETTINGS_SIZE "Some ?p" cap rnd
        SHELLY_DIMMER_PROTO_CMD_SETTINGS s] sc
    by auto
  have su: "seq u = seq s + 1" using k1(3) by (simp add: members_def)
  obtain k2 where k2: "1 \<le> k2" "k2 \<le> 3"
    "members (send_brightness cap rnd b u) = members (u\<lparr>seq := seq u + 1, brightness := b\<rparr>)"
    "tx_log (env (send_brightness cap rnd b u)) =
       tx_log (env u) @ replicate k2 (wire_frame (seq u + 1) SHELLY_DIMMER_PROTO_CMD_SWITCH
                                         [ucast (b AND 0xff), ucast (drop_bit 8 b)])"
    using send_brightness_tx[of cap rnd b u] by auto
  have ss: "send_settings cap rnd s = Some (send_brightness cap rnd b u)"
    using assms sc by (simp add: send_settings_def Let_def)
  have e: "seq u + 1 = seq s + 2" using su by simp
  have r: "seq (send_brightness cap rnd b u) = seq s + 2" "brightness (send_brightness cap rnd b u) = b"
    using k2(3) su by (simp_all add: members_def)
  note tx = k2(4)[unfolded e k1(4)]
  show ?thesis
    by (intro exI[of _ "send_brightness cap rnd b u"] exI[of _ k1] exI[of _ k2] conjI
          ss k1(1,2) k2(1,2) r csum_join) (use tx in simp)
qed

theorem send_settings_two_commands_witness:
  "convert_brightness exact ((fresh 79)\<lparr>state := Some (1 / 2)\<rparr>)
     (case state ((fresh 79)\<lparr>state := Some (1 / 2)\<rparr>) of None \<Rightarrow> 0 | Some v \<Rightarrow> v) = Some 500 \<and>
   (\<exists>t k1 k2.
      send_settings 79 exact ((fresh 79)\<lparr>state := Some (1 / 2)\<rparr>) = Some t \<and>
      1 \<le> k1 \<and> k1 \<le> 3 \<and> 1 \<le> k2 \<and> k2 \<le> 3 \<and>
      tx_log (env t) =
        replicate k1 [0x01, 0x01, 0x20, 0x0A, 0xF4, 0x01, 0x02, 0x00, 0x00, 0x00, 0x64, 0x00, 0x14, 0x00,
                      0x01, 0x9A, 0x04] @
        replicate k2 [0x01, 0x02, 0x01, 0x02, 0xF4, 0x01, 0x00, 0xFA, 0x04] \<and>
      seq t = 2 \<and> brightness t = 500)"
proof -
  let ?s = "(fresh 79)\<lparr>state := Some (1 / 2)\<rparr>"
  have a: "convert_brightness exact ?s (case state ?s of None \<Rightarrow> 0 | Some v \<Rightarrow> v) = Some 500"
    using convert_half by simp
  show ?thesis
    using send_settings_two_commands[OF a, of 79] a
    by (simp add: fresh_def quiet_def wire_frame_def wire_checksum_def)
qed

text \<open>
  C10. \<open>write_state\<close> returns the state it was given, so nothing is transmitted and no
  member changes, when the component is not ready, and also when the converted
  brightness equals the brightness sent last. When the component is ready and the
  converted brightness differs, the switch command with that brightness is transmitted
  (one to three times) and the brightness is stored.
\<close>

theorem write_state_gate:
  "(\<not> ready s \<or> convert_brightness rnd s level = Some (brightness s) \<longrightarrow>
      write_state cap rnd level s = Some s) \<and>
   (ready s \<and> convert_brightness rnd s level = Some b \<and> b \<noteq> brightness s \<longrightarrow>
      (\<exists>t k. write_state cap rnd level s = Some t \<and> 1 \<le> k \<and> k \<le> 3 \<and>
         tx_log (env t) =
           tx_log (env s) @
           replicate k (wire_frame (seq s + 1) SHELLY_DIMMER_PROTO_CMD_SWITCH
                          [ucast (b AND 0xff), ucast (drop_bit 8 b)]) \<and>
         brightness t = b \<and> seq t = seq s + 1))"
proof (intro conjI impI)
  assume "\<not> ready s \<or> convert_brightness rnd s level = Some (brightness s)"
  then show "write_state cap rnd level s = Some s"
    by (auto simp: write_state_def)
next
  assume a: "ready s \<and> convert_brightness rnd s level = Some b \<and> b \<noteq> brightness s"
  then have w: "write_state cap rnd level s = Some (send_brightness cap rnd b s)"
    by (simp add: write_state_def)
  obtain k where k: "1 \<le> k" "k \<le> 3"
    "members (send_brightness cap rnd b s) = members (s\<lparr>seq := seq s + 1, brightness := b\<rparr>)"
    "tx_log (env (send_brightness cap rnd b s)) =
       tx_log (env s) @ replicate k (wire_frame (seq s + 1) SHELLY_DIMMER_PROTO_CMD_SWITCH
                                       [ucast (b AND 0xff), ucast (drop_bit 8 b)])"
    using send_brightness_tx[of cap rnd b s] by blast
  have r: "brightness (send_brightness cap rnd b s) = b" "seq (send_brightness cap rnd b s) = seq s + 1"
    using k(3) by (simp_all add: members_def)
  show "\<exists>t k. write_state cap rnd level s = Some t \<and> 1 \<le> k \<and> k \<le> 3 \<and>
         tx_log (env t) =
           tx_log (env s) @
           replicate k (wire_frame (seq s + 1) SHELLY_DIMMER_PROTO_CMD_SWITCH
                          [ucast (b AND 0xff), ucast (drop_bit 8 b)]) \<and>
         brightness t = b \<and> seq t = seq s + 1"
    by (intro exI[of _ "send_brightness cap rnd b s"] exI[of _ k] conjI w k(1,2,4) r)
qed

theorem write_state_gate_witness:
  "write_state 79 exact (1 / 2) ((fresh 79)\<lparr>state := Some (1 / 2)\<rparr>) =
     Some ((fresh 79)\<lparr>state := Some (1 / 2)\<rparr>) \<and>
   write_state 79 exact (1 / 2) ((fresh 79)\<lparr>state := Some (1 / 2), ready := True, brightness := 500\<rparr>) =
     Some ((fresh 79)\<lparr>state := Some (1 / 2), ready := True, brightness := 500\<rparr>) \<and>
   (\<exists>t k. write_state 79 exact (1 / 2) ((fresh 79)\<lparr>state := Some (1 / 2), ready := True\<rparr>) = Some t \<and>
      1 \<le> k \<and> k \<le> 3 \<and>
      tx_log (env t) = replicate k [0x01, 0x01, 0x01, 0x02, 0xF4, 0x01, 0x00, 0xF9, 0x04] \<and>
      brightness t = 500 \<and> seq t = 1)"
proof -
  let ?s = "(fresh 79)\<lparr>state := Some (1 / 2)\<rparr>"
  let ?r = "(fresh 79)\<lparr>state := Some (1 / 2), ready := True\<rparr>"
  let ?u = "(fresh 79)\<lparr>state := Some (1 / 2), ready := True, brightness := 500\<rparr>"
  have c: "convert_brightness exact ?r (1 / 2) = Some 500"
    "convert_brightness exact ?u (1 / 2) = Some 500"
    by (simp_all add: convert_brightness_def float_mul_def float_to_uint16_def fresh_def exact_def)
  have 1: "\<not> ready ?s \<or> convert_brightness exact ?s (1 / 2) = Some (brightness ?s)"
    by (simp add: fresh_def)
  have 2: "\<not> ready ?u \<or> convert_brightness exact ?u (1 / 2) = Some (brightness ?u)"
    using c(2) by simp
  have 3: "ready ?r \<and> convert_brightness exact ?r (1 / 2) = Some 500 \<and> 500 \<noteq> brightness ?r"
    using c(1) by (simp add: fresh_def)
  note A = write_state_gate[where s = ?s and rnd = exact and level = "1 / 2" and cap = 79,
      THEN conjunct1, THEN mp, OF 1]
  note B = write_state_gate[where s = ?u and rnd = exact and level = "1 / 2" and cap = 79,
      THEN conjunct1, THEN mp, OF 2]
  note C = write_state_gate[where s = ?r and rnd = exact and level = "1 / 2" and cap = 79
      and b = 500, THEN conjunct2, THEN mp, OF 3]
  show ?thesis
    using A B C by (simp add: fresh_def quiet_def wire_frame_def wire_checksum_def)
qed

subsection \<open>Brightness conversion\<close>

text \<open>
  C5, as the claim states it, fails: the clamp to 1000 is applied after the linear map,
  so with \<open>min_brightness = 2000\<close> and \<open>max_brightness = 3000\<close> the input 0.5 gives
  \<open>500 + 2000 = 2500\<close>, clamped to 1000, which is below \<open>min_brightness\<close>. (The product
  \<open>0.5 * 1000\<close> is exact in \<^verbatim>\<open>float\<close>.)
\<close>

theorem convert_brightness_below_min:
  "convert_brightness exact ((fresh 79)\<lparr>min_brightness := 2000, max_brightness := 3000\<rparr>) (1 / 2)
     = Some 1000 \<and>
   (1000::u16) < min_brightness ((fresh 79)\<lparr>min_brightness := 2000, max_brightness := 3000\<rparr>)"
  by (simp add: convert_brightness_def float_mul_def float_to_uint16_def fresh_def exact_def)

text \<open>
  C5, amended. For every rounding \<open>rnd\<close> of the \<^verbatim>\<open>float\<close> product that is monotone and
  leaves the integers from 0 to 65535 as they are (round-to-nearest does both):
  the input 0.0 gives 0 for every configuration; a defined result never exceeds 1000;
  when \<open>min_brightness \<le> max_brightness\<close>, every input in (0, 1] gives
  \<open>min (min_brightness + trunc (level * (max_brightness - min_brightness))) 1000\<close>, which
  lies between \<open>min min_brightness 1000\<close> and \<open>min max_brightness 1000\<close>, so it is at
  least \<open>min_brightness\<close> whenever \<open>min_brightness \<le> 1000\<close>; and input 1.0 with
  \<open>min_brightness = 0\<close>, \<open>max_brightness = 1000\<close> gives exactly 1000. For
  \<open>min_brightness > max_brightness\<close> the product is negative and its conversion to
  \<^verbatim>\<open>uint16_t\<close> is undefined in the source.
\<close>

theorem convert_brightness_range:
  assumes mono: "\<And>x y. x \<le> y \<Longrightarrow> rnd x \<le> rnd y"
    and exact: "\<And>n::int. 0 \<le> n \<Longrightarrow> n \<le> 65535 \<Longrightarrow> rnd (of_int n) = of_int n"
  shows "convert_brightness rnd s 0 = Some 0 \<and>
         (convert_brightness rnd s level = Some r \<longrightarrow> r \<le> 1000) \<and>
         (min_brightness s \<le> max_brightness s \<and> 0 < level \<and> level \<le> 1 \<longrightarrow>
            (\<exists>q. convert_brightness rnd s level = Some q \<and>
                 uint q = min (uint (min_brightness s) +
                               \<lfloor>rnd (level * real_of_int (uint (max_brightness s) - uint (min_brightness s)))\<rfloor>)
                              1000 \<and>
                 min (uint (min_brightness s)) 1000 \<le> uint q \<and>
                 uint q \<le> min (uint (max_brightness s)) 1000)) \<and>
         (min_brightness s = 0 \<and> max_brightness s = 1000 \<longrightarrow>
            convert_brightness rnd s 1 = Some 1000)"
proof (intro conjI impI)
  show "convert_brightness rnd s 0 = Some 0"
    by (simp add: convert_brightness_def)
next
  assume "convert_brightness rnd s level = Some r"
  then show "r \<le> 1000"
    by (auto simp: convert_brightness_def split: if_splits option.splits)
next
  assume a: "min_brightness s \<le> max_brightness s \<and> 0 < level \<and> level \<le> 1"
  define d where "d = uint (max_brightness s) - uint (min_brightness s)"
  define x where "x = rnd (level * real_of_int d)"
  have d0: "0 \<le> d" using a by (simp add: d_def word_le_def)
  have dmax: "d + uint (min_brightness s) = uint (max_brightness s)" by (simp add: d_def)
  have mx: "uint (max_brightness s) < 65536"
    using uint_bounded[of "max_brightness s"] by simp
  have d65: "d \<le> 65535" using dmax mx uint_ge_0[of "min_brightness s"] by linarith
  have "rnd (real_of_int 0) \<le> x"
    unfolding x_def using a d0 by (intro mono) simp
  then have x0: "0 \<le> x" using exact[of 0] by simp
  have "level * real_of_int d \<le> real_of_int d"
    using a d0 by (simp add: mult_left_le_one_le)
  then have "x \<le> rnd (real_of_int d)" unfolding x_def by (rule mono)
  then have xd: "x \<le> real_of_int d" using exact[OF d0 d65] by simp
  then have x65: "x < 65536" using d65 by linarith
  have f0: "0 \<le> \<lfloor>x\<rfloor>" using x0 by simp
  have fd: "\<lfloor>x\<rfloor> \<le> d" using xd by (simp add: floor_le_iff)
  have c: "convert_brightness rnd s level =
             Some (min (of_int \<lfloor>x\<rfloor> + min_brightness s) 1000)"
    using a x0 x65
    by (simp add: convert_brightness_def float_mul_def float_to_uint16_nonneg x_def d_def)
  have u: "uint ((of_int \<lfloor>x\<rfloor> :: u16) + min_brightness s) = \<lfloor>x\<rfloor> + uint (min_brightness s)"
    using f0 fd dmax mx by (intro uint_of_floor_plus) linarith+
  have uq: "uint (min ((of_int \<lfloor>x\<rfloor> :: u16) + min_brightness s) 1000) =
              min (uint (min_brightness s) + \<lfloor>x\<rfloor>) 1000"
    using u by (simp add: uint_min_1000 add.commute)
  have b1: "min (uint (min_brightness s)) 1000 \<le> min (uint (min_brightness s) + \<lfloor>x\<rfloor>) 1000"
    using f0 by linarith
  have b2: "min (uint (min_brightness s) + \<lfloor>x\<rfloor>) 1000 \<le> min (uint (max_brightness s)) 1000"
    using fd dmax by linarith
  have "\<exists>q. convert_brightness rnd s level = Some q \<and>
                 uint q = min (uint (min_brightness s) + \<lfloor>x\<rfloor>) 1000 \<and>
                 min (uint (min_brightness s)) 1000 \<le> uint q \<and>
                 uint q \<le> min (uint (max_brightness s)) 1000"
    unfolding c using uq b1 b2 by simp
  then show "\<exists>q. convert_brightness rnd s level = Some q \<and>
                 uint q = min (uint (min_brightness s) +
                               \<lfloor>rnd (level * real_of_int (uint (max_brightness s) - uint (min_brightness s)))\<rfloor>)
                              1000 \<and>
                 min (uint (min_brightness s)) 1000 \<le> uint q \<and>
                 uint q \<le> min (uint (max_brightness s)) 1000"
    unfolding x_def d_def .
next
  assume "min_brightness s = 0 \<and> max_brightness s = 1000"
  then show "convert_brightness rnd s 1 = Some 1000"
    using exact[of 1000]
    by (simp add: convert_brightness_def float_mul_def float_to_uint16_def)
qed

theorem convert_brightness_range_witness:
  "convert_brightness exact (fresh 79) 0 = Some 0 \<and>
   convert_brightness exact (fresh 79) (1 / 2) = Some 500 \<and> (500::u16) \<le> 1000 \<and>
   min_brightness (fresh 79) \<le> max_brightness (fresh 79) \<and>
   (\<exists>q. convert_brightness exact (fresh 79) (1 / 2) = Some q \<and> uint q = 500 \<and>
        min (uint (min_brightness (fresh 79))) 1000 \<le> uint q \<and>
        uint q \<le> min (uint (max_brightness (fresh 79))) 1000) \<and>
   convert_brightness exact (fresh 79) 1 = Some 1000"
proof -
  have c: "convert_brightness exact (fresh 79) (1 / 2) = Some 500"
    by (simp add: convert_brightness_def float_mul_def float_to_uint16_def fresh_def exact_def)
  have m: "min_brightness (fresh 79) \<le> max_brightness (fresh 79) \<and> (0::real) < 1 / 2 \<and> (1 / 2 :: real) \<le> 1"
    "min_brightness (fresh 79) = 0 \<and> max_brightness (fresh 79) = 1000"
    by (simp_all add: fresh_def)
  have f: "\<lfloor>exact (1 / 2 * real_of_int (uint (max_brightness (fresh 79)) - uint (min_brightness (fresh 79))))\<rfloor> = 500"
    by (simp add: fresh_def exact_def)
  note T = convert_brightness_range[of exact "fresh 79" "1 / 2" 500]
  have T': "convert_brightness exact (fresh 79) 0 = Some 0 \<and>
         (convert_brightness exact (fresh 79) (1 / 2) = Some 500 \<longrightarrow> (500::u16) \<le> 1000) \<and>
         (min_brightness (fresh 79) \<le> max_brightness (fresh 79) \<and> (0::real) < 1 / 2 \<and> (1 / 2 :: real) \<le> 1 \<longrightarrow>
            (\<exists>q. convert_brightness exact (fresh 79) (1 / 2) = Some q \<and>
                 uint q = min (uint (min_brightness (fresh 79)) +
                               \<lfloor>exact (1 / 2 * real_of_int (uint (max_brightness (fresh 79)) - uint (min_brightness (fresh 79))))\<rfloor>)
                              1000 \<and>
                 min (uint (min_brightness (fresh 79))) 1000 \<le> uint q \<and>
                 uint q \<le> min (uint (max_brightness (fresh 79))) 1000)) \<and>
         (min_brightness (fresh 79) = 0 \<and> max_brightness (fresh 79) = 1000 \<longrightarrow>
            convert_brightness exact (fresh 79) 1 = Some 1000)"
    by (rule T) (simp_all add: exact_def)
  have 1: "convert_brightness exact (fresh 79) 0 = Some 0"
    using T' by (rule conjunct1)
  have 2: "(500::u16) \<le> 1000"
    using T'[THEN conjunct2, THEN conjunct1] c by (rule mp)
  have 3: "\<exists>q. convert_brightness exact (fresh 79) (1 / 2) = Some q \<and> uint q = 500 \<and>
        min (uint (min_brightness (fresh 79))) 1000 \<le> uint q \<and>
        uint q \<le> min (uint (max_brightness (fresh 79))) 1000"
    using T'[THEN conjunct2, THEN conjunct2, THEN conjunct1, THEN mp, OF m(1)] unfolding f
    by (simp add: fresh_def)
  have 4: "convert_brightness exact (fresh 79) 1 = Some 1000"
    using T'[THEN conjunct2, THEN conjunct2, THEN conjunct2] m(2) by (rule mp)
  show ?thesis
    using 1 c 2 m(1) 3 4 by blast
qed

subsection \<open>Telemetry\<close>

text \<open>
  C8. For a poll report that matches the outstanding sequence number and has a payload
  length of at least 16, \<open>handle_frame\<close> reports success and hands each attached sensor
  the decoded value of its raw reading: 0 when the raw little-endian reading is 0, and
  the rounded quotient of the scaling constant by the reading only when the reading is
  positive. A reading of 0 therefore never reaches a division; a sensor that is not
  attached stays absent.
\<close>

theorem poll_zero_reading:
  assumes "buffer s ! 1 = seq s" "buffer s ! 2 = SHELLY_DIMMER_PROTO_CMD_POLL" "16 \<le> buffer s ! 3"
  shows "\<exists>t. handle_frame rnd s = (True, t) \<and>
           power_sensor t =
             publish_state (decoded rnd POWER_SCALING_FACTOR (raw_reading s 4)) (power_sensor s) \<and>
           voltage_sensor t =
             publish_state (decoded rnd VOLTAGE_SCALING_FACTOR (raw_reading s 8)) (voltage_sensor s) \<and>
           current_sensor t =
             publish_state (decoded rnd CURRENT_SCALING_FACTOR (raw_reading s 12)) (current_sensor s) \<and>
           (raw_reading s 4 = 0 \<longrightarrow> power_sensor t = publish_state 0 (power_sensor s)) \<and>
           (raw_reading s 8 = 0 \<longrightarrow> voltage_sensor t = publish_state 0 (voltage_sensor s)) \<and>
           (raw_reading s 12 = 0 \<longrightarrow> current_sensor t = publish_state 0 (current_sensor s))"
  using assms
  by (simp add: handle_frame_def Let_def not_less decode_step raw_reading_def decoded_def
        del: POWER_SCALING_FACTOR_def VOLTAGE_SCALING_FACTOR_def CURRENT_SCALING_FACTOR_def)

theorem poll_zero_reading_witness:
  "buffer poll_report ! 1 = seq poll_report \<and>
   buffer poll_report ! 2 = SHELLY_DIMMER_PROTO_CMD_POLL \<and>
   16 \<le> buffer poll_report ! 3 \<and>
   raw_reading poll_report 4 = 0 \<and> raw_reading poll_report 8 = 1512 \<and>
   raw_reading poll_report 12 = 0 \<and>
   (\<exists>t. handle_frame exact poll_report = (True, t) \<and>
        power_sensor t = Some [0] \<and> voltage_sensor t = Some [347800 / 1512] \<and>
        current_sensor t = None)"
proof -
  have a: "buffer poll_report ! 1 = seq poll_report"
    "buffer poll_report ! 2 = SHELLY_DIMMER_PROTO_CMD_POLL"
    "16 \<le> buffer poll_report ! 3"
    by (simp_all add: poll_report_def fresh_def)
  have r: "raw_reading poll_report 4 = 0" "raw_reading poll_report 8 = 1512"
    "raw_reading poll_report 12 = 0"
    by (simp_all add: raw_reading_def le32_def poll_report_def fresh_def)
  have p: "power_sensor poll_report = Some []" "voltage_sensor poll_report = Some []"
    "current_sensor poll_report = None"
    by (simp_all add: poll_report_def fresh_def)
  show ?thesis
    using poll_zero_reading[OF a, of exact] a r
    by (auto simp: p decoded_def publish_state_def float_div_def exact_def)
qed

subsection \<open>Initialisation\<close>

text \<open>
  C9. \<^verbatim>\<open>setup()\<close> makes at most one flash attempt: the loop adds at most one
  \<^verbatim>\<open>stm32_init\<close> call to the log, and so does the whole of \<^verbatim>\<open>setup()\<close> whenever it
  returns. When the first version check mismatches, the upgrade succeeds and the version
  check after it still mismatches, \<^verbatim>\<open>setup()\<close> returns right after that check with the
  component marked as failed; exactly one flash attempt was made, the readiness flag is
  what it was before (not set), and no poll was scheduled.
\<close>

theorem setup_flashes_at_most_once:
  "flashes (snd (setup_loop lib img cap rnd 0 s)) \<le> flashes s + 1 \<and>
   (shelly_setup lib img cap rnd s = Some t \<longrightarrow> flashes t \<le> flashes s + 1) \<and>
   (version_mismatch img (check_version cap rnd s) \<and>
    upgrade_firmware lib img (check_version cap rnd s) = (True, u) \<and>
    version_mismatch img (check_version cap rnd u) \<longrightarrow>
      shelly_setup lib img cap rnd s = Some (mark_failed (check_version cap rnd u)) \<and>
      failed (mark_failed (check_version cap rnd u)) \<and>
      ready (mark_failed (check_version cap rnd u)) = ready s \<and>
      poll_interval (mark_failed (check_version cap rnd u)) = poll_interval s \<and>
      flashes (mark_failed (check_version cap rnd u)) = flashes s + 1)"
proof (intro conjI impI)
  show "flashes (snd (setup_loop lib img cap rnd 0 s)) \<le> flashes s + 1"
    by (rule setup_loop_flashes)
next
  assume a: "shelly_setup lib img cap rnd s = Some t"
  obtain go_on v where l: "setup_loop lib img cap rnd 0 s = (go_on, v)"
    by (cases "setup_loop lib img cap rnd 0 s")
  have v: "flashes v \<le> flashes s + 1"
    using setup_loop_flashes[of lib img cap rnd s] l by simp
  show "flashes t \<le> flashes s + 1"
  proof (cases go_on)
    case False
    then have "t = v" using a l by (simp add: shelly_setup_def)
    then show ?thesis using v by simp
  next
    case True
    let ?s2 = "v\<lparr>poll_interval := Some 10000\<rparr>"
    obtain w where w: "send_settings cap rnd ?s2 = Some w"
      using a l True by (auto simp: shelly_setup_def Let_def split: option.splits)
    have t: "t = (snd (send_command cap rnd SHELLY_DIMMER_PROTO_CMD_POLL None 0 w))\<lparr>ready := True\<rparr>"
      using a l True w by (simp add: shelly_setup_def Let_def split: prod.splits)
    have "standing w = standing ?s2" using w by (rule send_settings_standing)
    moreover have "standing (snd (send_command cap rnd SHELLY_DIMMER_PROTO_CMD_POLL None 0 w)) = standing w"
      by (rule send_command_standing[of "[]"]) simp_all
    ultimately have "flashes t = flashes v"
      unfolding t by (simp add: standing_def flashes_def)
    then show ?thesis using v by simp
  qed
next
  assume a: "version_mismatch img (check_version cap rnd s) \<and>
    upgrade_firmware lib img (check_version cap rnd s) = (True, u) \<and>
    version_mismatch img (check_version cap rnd u)"
  then have l: "setup_loop lib img cap rnd 0 s = (False, mark_failed (check_version cap rnd u))"
    by (simp add: setup_loop_0 setup_loop_1)
  then show "shelly_setup lib img cap rnd s = Some (mark_failed (check_version cap rnd u))"
    by (simp add: shelly_setup_def)
  show "failed (mark_failed (check_version cap rnd u))"
    by (simp add: mark_failed_steady)
  have us: "ready u = ready s \<and> failed u = failed s \<and> poll_interval u = poll_interval s \<and>
            flashes u = flashes s + 1"
    using upgrade_firmware_steady[of lib img "check_version cap rnd s"] a
      check_version_steady[of cap rnd s]
    by simp
  show "ready (mark_failed (check_version cap rnd u)) = ready s"
    using us check_version_steady[of cap rnd u] by (simp add: mark_failed_steady)
  show "poll_interval (mark_failed (check_version cap rnd u)) = poll_interval s"
    using us check_version_steady[of cap rnd u] by (simp add: mark_failed_steady)
  show "flashes (mark_failed (check_version cap rnd u)) = flashes s + 1"
    using us check_version_steady[of cap rnd u] by (simp add: mark_failed_steady)
qed

theorem setup_flashes_at_most_once_witness:
  "version_mismatch image (check_version 79 exact stubborn) \<and>
   upgrade_firmware willing image (check_version 79 exact stubborn) =
     (True, snd (upgrade_firmware willing image (check_version 79 exact stubborn))) \<and>
   version_mismatch image
     (check_version 79 exact (snd (upgrade_firmware willing image (check_version 79 exact stubborn)))) \<and>
   flashes (snd (setup_loop willing image 79 exact 0 stubborn)) \<le> flashes stubborn + 1 \<and>
   shelly_setup willing image 79 exact stubborn =
     Some (mark_failed (check_version 79 exact
             (snd (upgrade_firmware willing image (check_version 79 exact stubborn))))) \<and>
   failed (mark_failed (check_version 79 exact
             (snd (upgrade_firmware willing image (check_version 79 exact stubborn))))) \<and>
   ready (mark_failed (check_version 79 exact
             (snd (upgrade_firmware willing image (check_version 79 exact stubborn))))) = ready stubborn \<and>
   flashes (mark_failed (check_version 79 exact
             (snd (upgrade_firmware willing image (check_version 79 exact stubborn))))) = flashes stubborn + 1 \<and>
   \<not> ready stubborn \<and> flashes stubborn = 0"
proof -
  let ?c = "check_version 79 exact stubborn"
  let ?u = "snd (upgrade_firmware willing image ?c)"
  let ?t = "mark_failed (check_version 79 exact ?u)"
  have 1: "version_mismatch image ?c"
    by code_simp
  have "fst (upgrade_firmware willing image ?c)"
    by code_simp
  then have 2: "upgrade_firmware willing image ?c = (True, ?u)"
    by (simp add: prod_eq_iff)
  have 3: "version_mismatch image (check_version 79 exact ?u)"
    by code_simp
  have 4: "\<not> ready stubborn" "flashes stubborn = 0"
    by (simp_all add: stubborn_def fresh_def flashes_def)
  note T = setup_flashes_at_most_once[of willing image 79 exact stubborn ?t ?u]
  have h: "version_mismatch image ?c \<and> upgrade_firmware willing image ?c = (True, ?u) \<and>
           version_mismatch image (check_version 79 exact ?u)"
    using 1 2 3 by (intro conjI)
  note F = T[THEN conjunct2, THEN conjunct2, THEN mp, OF h]
  show ?thesis
    by (intro conjI 1 2 3 4 T[THEN conjunct1] F[THEN conjunct1] F[THEN conjunct2, THEN conjunct1]
          F[THEN conjunct2, THEN conjunct2, THEN conjunct1]
          F[THEN conjunct2, THEN conjunct2, THEN conjunct2, THEN conjunct2])
qed

end
